theory Spec2Isabelle
  imports Main "HOL-Library.Sublist" "HOL-Library.List_Lexorder" "HOL-Library.Char_ord"
begin

section \<open>The program: p4unity, the change-content trigger of \<^verbatim>\<open>main.go\<close>\<close>

text \<open>
  The program is one function, \<^verbatim>\<open>app\<close>, with a helper for the remote
  look-up (\<^verbatim>\<open>fileExistsInDepot\<close>) and one for the report lines
  (\<^verbatim>\<open>filterStringsByType\<close>). Go strings are byte sequences and are modelled as
  \<^typ>\<open>string\<close>, whose characters are the bytes. The functions of the Go library
  the program calls are written out as the library defines them, on every byte
  sequence: \<^verbatim>\<open>strings.TrimSpace\<close> and \<^verbatim>\<open>strings.ToLower\<close> read text outside
  ASCII as UTF-8, and \<^verbatim>\<open>path/filepath\<close> is the one of a build whose only path
  separator is \<^verbatim>\<open>/\<close>.
\<close>

subsection \<open>Exit codes\<close>

definition p4ExitSuccess :: int where "p4ExitSuccess = 0"
definition p4ExitBypass :: int where "p4ExitBypass = 0"
definition p4ExitProblems :: int where "p4ExitProblems = 1"
definition p4ExitErrorException :: int where "p4ExitErrorException = 1"
definition p4ExitErrorEmpty :: int where "p4ExitErrorEmpty = 1"
definition p4ExitErrorUsage :: int where "p4ExitErrorUsage = 1"

subsection \<open>String sets and the operation vocabularies\<close>

type_synonym stringSet = "string set"

definition add :: "stringSet \<Rightarrow> string \<Rightarrow> stringSet" where
  "add s strvalue = insert strvalue s"

definition has :: "stringSet \<Rightarrow> string \<Rightarrow> bool" where
  "has s strvalue \<longleftrightarrow> strvalue \<in> s"

definition opsAdd :: stringSet where
  "opsAdd = {''move/add'', ''add'', ''import''}"

definition opsDel :: stringSet where
  "opsDel = {''move/delete'', ''delete'', ''purge'', ''archive''}"

definition opsExists :: stringSet where
  "opsExists = {''edit'', ''move/add'', ''add'', ''import''}"

subsection \<open>The Go library functions the program calls\<close>

definition strings_HasPrefix :: "string \<Rightarrow> string \<Rightarrow> bool" where
  "strings_HasPrefix s pre \<longleftrightarrow> take (length pre) s = pre"

fun strings_Contains :: "string \<Rightarrow> string \<Rightarrow> bool" where
  "strings_Contains [] substr = (substr = [])"
| "strings_Contains (c # cs) substr =
     (strings_HasPrefix (c # cs) substr \<or> strings_Contains cs substr)"

text \<open>
  Package \<^verbatim>\<open>unicode/utf8\<close>. A rune is a Unicode code point, an integer as in Go.
  \<^verbatim>\<open>DecodeRuneInString\<close> reads the first rune of a string and its width in bytes.
  Bytes that do not start a well-formed encoding (a continuation byte, a truncated or
  overlong sequence, a surrogate, a value above \<^verbatim>\<open>U+10FFFF\<close>) are read as
  \<^verbatim>\<open>RuneError\<close> with width 1. \<^verbatim>\<open>DecodeLastRuneInString\<close> reads the last rune: it
  steps back over at most three continuation bytes to the byte that starts it, and
  the rune read from there has to end the string. The subtraction of natural numbers
  stands for the clamp of \<^verbatim>\<open>lim\<close> and \<^verbatim>\<open>start\<close> at 0.
\<close>

definition utf8_RuneError :: int where "utf8_RuneError = 0xFFFD"

definition utf8_RuneSelf :: int where "utf8_RuneSelf = 0x80"

definition continuation :: "int \<Rightarrow> bool" where
  "continuation b \<longleftrightarrow> 0x80 \<le> b \<and> b \<le> 0xBF"

definition utf8_RuneStart :: "char \<Rightarrow> bool" where
  "utf8_RuneStart c \<longleftrightarrow> \<not> continuation (of_char c)"

definition utf8_DecodeRuneInString :: "string \<Rightarrow> int \<times> nat" where
  "utf8_DecodeRuneInString s =
     (case (map of_char (take 4 s) :: int list) of
        [] \<Rightarrow> (utf8_RuneError, 0)
      | b0 # bs \<Rightarrow>
          if b0 < utf8_RuneSelf then (b0, 1)
          else if 0xC2 \<le> b0 \<and> b0 \<le> 0xDF then
            (case bs of
               b1 # _ \<Rightarrow>
                 if continuation b1 then ((b0 - 0xC0) * 64 + (b1 - 0x80), 2)
                 else (utf8_RuneError, 1)
             | _ \<Rightarrow> (utf8_RuneError, 1))
          else if 0xE0 \<le> b0 \<and> b0 \<le> 0xEF then
            (case bs of
               b1 # b2 # _ \<Rightarrow>
                 if (if b0 = 0xE0 then 0xA0 else 0x80) \<le> b1
                    \<and> b1 \<le> (if b0 = 0xED then 0x9F else 0xBF) \<and> continuation b2
                 then ((b0 - 0xE0) * 4096 + (b1 - 0x80) * 64 + (b2 - 0x80), 3)
                 else (utf8_RuneError, 1)
             | _ \<Rightarrow> (utf8_RuneError, 1))
          else if 0xF0 \<le> b0 \<and> b0 \<le> 0xF4 then
            (case bs of
               b1 # b2 # b3 # _ \<Rightarrow>
                 if (if b0 = 0xF0 then 0x90 else 0x80) \<le> b1
                    \<and> b1 \<le> (if b0 = 0xF4 then 0x8F else 0xBF)
                    \<and> continuation b2 \<and> continuation b3
                 then ((b0 - 0xF0) * 262144 + (b1 - 0x80) * 4096 + (b2 - 0x80) * 64
                       + (b3 - 0x80), 4)
                 else (utf8_RuneError, 1)
             | _ \<Rightarrow> (utf8_RuneError, 1))
          else (utf8_RuneError, 1))"

definition utf8_DecodeLastRuneInString :: "string \<Rightarrow> int \<times> nat" where
  "utf8_DecodeLastRuneInString s =
     (if s = [] then (utf8_RuneError, 0)
      else if of_char (last s) < utf8_RuneSelf then (of_char (last s), 1)
      else
        (let back = takeWhile (\<lambda>c. \<not> utf8_RuneStart c) (take 3 (drop 1 (rev s)));
             start = length s - 2 - length back;
             (r, wid) = utf8_DecodeRuneInString (drop start s)
         in if start + wid \<noteq> length s then (utf8_RuneError, 1) else (r, wid)))"

text \<open>
  \<^verbatim>\<open>EncodeRune\<close> writes a rune; a surrogate or a value above \<^verbatim>\<open>U+10FFFF\<close> is
  written as \<^verbatim>\<open>RuneError\<close>. \<open>runes s\<close> are the runes of \<^verbatim>\<open>for _, c := range s\<close>.
\<close>

definition utf8_EncodeRune :: "int \<Rightarrow> string" where
  "utf8_EncodeRune r =
     (if r \<le> 0x7F then [char_of r]
      else if r \<le> 0x7FF then [char_of (0xC0 + r div 64), char_of (0x80 + r mod 64)]
      else if r > 0x10FFFF \<or> (0xD800 \<le> r \<and> r \<le> 0xDFFF) then [CHR 0xEF, CHR 0xBF, CHR 0xBD]
      else if r \<le> 0xFFFF
        then [char_of (0xE0 + r div 4096), char_of (0x80 + r div 64 mod 64),
              char_of (0x80 + r mod 64)]
      else [char_of (0xF0 + r div 262144), char_of (0x80 + r div 4096 mod 64),
            char_of (0x80 + r div 64 mod 64), char_of (0x80 + r mod 64)])"

fun runes :: "string \<Rightarrow> int list" where
  "runes [] = []"
| "runes (c # cs) =
     fst (utf8_DecodeRuneInString (c # cs))
       # runes (drop (snd (utf8_DecodeRuneInString (c # cs)) - 1) cs)"

text \<open>
  Package \<^verbatim>\<open>unicode\<close>. \<^verbatim>\<open>IsSpace\<close> holds of the runes with the property White_Space.
  \<^verbatim>\<open>ToLower\<close> maps a rune to lower case: the letters of ASCII by their offset, every
  other rune by the table \<^verbatim>\<open>CaseRanges\<close>, of which the deltas to lower case are kept
  here. In a range marked \<open>UpperLower\<close> upper and lower case alternate, starting with
  an upper-case letter. The table is the one of Unicode 14.0.0; the table of a library
  built for another version of Unicode differs from it at most in letters that were
  added between the two versions.
\<close>

definition unicode_IsSpace :: "int \<Rightarrow> bool" where
  "unicode_IsSpace r \<longleftrightarrow>
     r \<in> set [0x09, 0x0A, 0x0B, 0x0C, 0x0D, 0x20, 0x85, 0xA0, 0x1680, 0x2028, 0x2029,
              0x202F, 0x205F, 0x3000]
     \<or> (0x2000 \<le> r \<and> r \<le> 0x200A)"

datatype delta = Shift int | UpperLower

definition unicode_CaseRanges :: "(int \<times> int \<times> delta) list" where
  "unicode_CaseRanges =
    [(0x00C0, 0x00D6, Shift 32), (0x00D8, 0x00DE, Shift 32), (0x0100, 0x012F, UpperLower),
     (0x0130, 0x0130, Shift (- 199)), (0x0132, 0x0137, UpperLower),
     (0x0139, 0x0148, UpperLower), (0x014A, 0x0177, UpperLower),
     (0x0178, 0x0178, Shift (- 121)), (0x0179, 0x017E, UpperLower),
     (0x0181, 0x0181, Shift 210), (0x0182, 0x0185, UpperLower), (0x0186, 0x0186, Shift 206),
     (0x0187, 0x0188, UpperLower), (0x0189, 0x018A, Shift 205), (0x018B, 0x018C, UpperLower),
     (0x018E, 0x018E, Shift 79), (0x018F, 0x018F, Shift 202), (0x0190, 0x0190, Shift 203),
     (0x0191, 0x0192, UpperLower), (0x0193, 0x0193, Shift 205), (0x0194, 0x0194, Shift 207),
     (0x0196, 0x0196, Shift 211), (0x0197, 0x0197, Shift 209), (0x0198, 0x0199, UpperLower),
     (0x019C, 0x019C, Shift 211), (0x019D, 0x019D, Shift 213), (0x019F, 0x019F, Shift 214),
     (0x01A0, 0x01A5, UpperLower), (0x01A6, 0x01A6, Shift 218), (0x01A7, 0x01A8, UpperLower),
     (0x01A9, 0x01A9, Shift 218), (0x01AC, 0x01AD, UpperLower), (0x01AE, 0x01AE, Shift 218),
     (0x01AF, 0x01B0, UpperLower), (0x01B1, 0x01B2, Shift 217), (0x01B3, 0x01B6, UpperLower),
     (0x01B7, 0x01B7, Shift 219), (0x01B8, 0x01B9, UpperLower), (0x01BC, 0x01BD, UpperLower),
     (0x01C4, 0x01C4, Shift 2), (0x01C5, 0x01C6, UpperLower), (0x01C7, 0x01C7, Shift 2),
     (0x01C8, 0x01C9, UpperLower), (0x01CA, 0x01CA, Shift 2), (0x01CB, 0x01DC, UpperLower),
     (0x01DE, 0x01EF, UpperLower), (0x01F1, 0x01F1, Shift 2), (0x01F2, 0x01F5, UpperLower),
     (0x01F6, 0x01F6, Shift (- 97)), (0x01F7, 0x01F7, Shift (- 56)),
     (0x01F8, 0x021F, UpperLower), (0x0220, 0x0220, Shift (- 130)),
     (0x0222, 0x0233, UpperLower), (0x023A, 0x023A, Shift 10795), (0x023B, 0x023C, UpperLower),
     (0x023D, 0x023D, Shift (- 163)), (0x023E, 0x023E, Shift 10792),
     (0x0241, 0x0242, UpperLower), (0x0243, 0x0243, Shift (- 195)), (0x0244, 0x0244, Shift 69),
     (0x0245, 0x0245, Shift 71), (0x0246, 0x024F, UpperLower), (0x0370, 0x0373, UpperLower),
     (0x0376, 0x0377, UpperLower), (0x037F, 0x037F, Shift 116), (0x0386, 0x0386, Shift 38),
     (0x0388, 0x038A, Shift 37), (0x038C, 0x038C, Shift 64), (0x038E, 0x038F, Shift 63),
     (0x0391, 0x03A1, Shift 32), (0x03A3, 0x03AB, Shift 32), (0x03CF, 0x03CF, Shift 8),
     (0x03D8, 0x03EF, UpperLower), (0x03F4, 0x03F4, Shift (- 60)),
     (0x03F7, 0x03F8, UpperLower), (0x03F9, 0x03F9, Shift (- 7)), (0x03FA, 0x03FB, UpperLower),
     (0x03FD, 0x03FF, Shift (- 130)), (0x0400, 0x040F, Shift 80), (0x0410, 0x042F, Shift 32),
     (0x0460, 0x0481, UpperLower), (0x048A, 0x04BF, UpperLower), (0x04C0, 0x04C0, Shift 15),
     (0x04C1, 0x04CE, UpperLower), (0x04D0, 0x052F, UpperLower), (0x0531, 0x0556, Shift 48),
     (0x10A0, 0x10C5, Shift 7264), (0x10C7, 0x10C7, Shift 7264), (0x10CD, 0x10CD, Shift 7264),
     (0x13A0, 0x13EF, Shift 38864), (0x13F0, 0x13F5, Shift 8),
     (0x1C90, 0x1CBA, Shift (- 3008)), (0x1CBD, 0x1CBF, Shift (- 3008)),
     (0x1E00, 0x1E95, UpperLower), (0x1E9E, 0x1E9E, Shift (- 7615)),
     (0x1EA0, 0x1EFF, UpperLower), (0x1F08, 0x1F0F, Shift (- 8)),
     (0x1F18, 0x1F1D, Shift (- 8)), (0x1F28, 0x1F2F, Shift (- 8)),
     (0x1F38, 0x1F3F, Shift (- 8)), (0x1F48, 0x1F4D, Shift (- 8)),
     (0x1F59, 0x1F59, Shift (- 8)), (0x1F5B, 0x1F5B, Shift (- 8)),
     (0x1F5D, 0x1F5D, Shift (- 8)), (0x1F5F, 0x1F5F, Shift (- 8)),
     (0x1F68, 0x1F6F, Shift (- 8)), (0x1F88, 0x1F8F, Shift (- 8)),
     (0x1F98, 0x1F9F, Shift (- 8)), (0x1FA8, 0x1FAF, Shift (- 8)),
     (0x1FB8, 0x1FB9, Shift (- 8)), (0x1FBA, 0x1FBB, Shift (- 74)),
     (0x1FBC, 0x1FBC, Shift (- 9)), (0x1FC8, 0x1FCB, Shift (- 86)),
     (0x1FCC, 0x1FCC, Shift (- 9)), (0x1FD8, 0x1FD9, Shift (- 8)),
     (0x1FDA, 0x1FDB, Shift (- 100)), (0x1FE8, 0x1FE9, Shift (- 8)),
     (0x1FEA, 0x1FEB, Shift (- 112)), (0x1FEC, 0x1FEC, Shift (- 7)),
     (0x1FF8, 0x1FF9, Shift (- 128)), (0x1FFA, 0x1FFB, Shift (- 126)),
     (0x1FFC, 0x1FFC, Shift (- 9)), (0x2126, 0x2126, Shift (- 7517)),
     (0x212A, 0x212A, Shift (- 8383)), (0x212B, 0x212B, Shift (- 8262)),
     (0x2132, 0x2132, Shift 28), (0x2160, 0x216F, Shift 16), (0x2183, 0x2184, UpperLower),
     (0x24B6, 0x24CF, Shift 26), (0x2C00, 0x2C2F, Shift 48), (0x2C60, 0x2C61, UpperLower),
     (0x2C62, 0x2C62, Shift (- 10743)), (0x2C63, 0x2C63, Shift (- 3814)),
     (0x2C64, 0x2C64, Shift (- 10727)), (0x2C67, 0x2C6C, UpperLower),
     (0x2C6D, 0x2C6D, Shift (- 10780)), (0x2C6E, 0x2C6E, Shift (- 10749)),
     (0x2C6F, 0x2C6F, Shift (- 10783)), (0x2C70, 0x2C70, Shift (- 10782)),
     (0x2C72, 0x2C73, UpperLower), (0x2C75, 0x2C76, UpperLower),
     (0x2C7E, 0x2C7F, Shift (- 10815)), (0x2C80, 0x2CE3, UpperLower),
     (0x2CEB, 0x2CEE, UpperLower), (0x2CF2, 0x2CF3, UpperLower), (0xA640, 0xA66D, UpperLower),
     (0xA680, 0xA69B, UpperLower), (0xA722, 0xA72F, UpperLower), (0xA732, 0xA76F, UpperLower),
     (0xA779, 0xA77C, UpperLower), (0xA77D, 0xA77D, Shift (- 35332)),
     (0xA77E, 0xA787, UpperLower), (0xA78B, 0xA78C, UpperLower),
     (0xA78D, 0xA78D, Shift (- 42280)), (0xA790, 0xA793, UpperLower),
     (0xA796, 0xA7A9, UpperLower), (0xA7AA, 0xA7AA, Shift (- 42308)),
     (0xA7AB, 0xA7AB, Shift (- 42319)), (0xA7AC, 0xA7AC, Shift (- 42315)),
     (0xA7AD, 0xA7AD, Shift (- 42305)), (0xA7AE, 0xA7AE, Shift (- 42308)),
     (0xA7B0, 0xA7B0, Shift (- 42258)), (0xA7B1, 0xA7B1, Shift (- 42282)),
     (0xA7B2, 0xA7B2, Shift (- 42261)), (0xA7B3, 0xA7B3, Shift 928),
     (0xA7B4, 0xA7C3, UpperLower), (0xA7C4, 0xA7C4, Shift (- 48)),
     (0xA7C5, 0xA7C5, Shift (- 42307)), (0xA7C6, 0xA7C6, Shift (- 35384)),
     (0xA7C7, 0xA7CA, UpperLower), (0xA7D0, 0xA7D1, UpperLower), (0xA7D6, 0xA7D9, UpperLower),
     (0xA7F5, 0xA7F6, UpperLower), (0xFF21, 0xFF3A, Shift 32), (0x10400, 0x10427, Shift 40),
     (0x104B0, 0x104D3, Shift 40), (0x10570, 0x1057A, Shift 39), (0x1057C, 0x1058A, Shift 39),
     (0x1058C, 0x10592, Shift 39), (0x10594, 0x10595, Shift 39), (0x10C80, 0x10CB2, Shift 64),
     (0x118A0, 0x118BF, Shift 32), (0x16E40, 0x16E5F, Shift 32), (0x1E900, 0x1E921, Shift 34)]"

fun to_LowerCase :: "int \<Rightarrow> (int \<times> int \<times> delta) list \<Rightarrow> int" where
  "to_LowerCase r [] = r"
| "to_LowerCase r ((lo, hi, d) # caseRange) =
     (if lo \<le> r \<and> r \<le> hi
      then (case d of
              Shift n \<Rightarrow> r + n
            | UpperLower \<Rightarrow> lo + ((r - lo) div 2 * 2 + 1))
      else to_LowerCase r caseRange)"

definition unicode_ToLower :: "int \<Rightarrow> int" where
  "unicode_ToLower r =
     (if r \<le> 0x7F then (if 0x41 \<le> r \<and> r \<le> 0x5A then r + 0x20 else r)
      else to_LowerCase r unicode_CaseRanges)"

text \<open>
  Package \<^verbatim>\<open>strings\<close>. \<^verbatim>\<open>TrimSpace\<close> cuts white space from both ends: the six
  white-space bytes of ASCII on its fast path, and from the first byte outside ASCII on
  by \<^verbatim>\<open>TrimFunc\<close> and \<^verbatim>\<open>TrimRightFunc\<close>, which read runes.
\<close>

definition asciiSpace :: "char \<Rightarrow> bool" where
  "asciiSpace c \<longleftrightarrow> c \<in> set [CHR 0x09, CHR 0x0A, CHR 0x0B, CHR 0x0C, CHR 0x0D, CHR '' '']"

fun strings_TrimLeftFunc :: "string \<Rightarrow> (int \<Rightarrow> bool) \<Rightarrow> string" where
  "strings_TrimLeftFunc [] f = []"
| "strings_TrimLeftFunc (c # cs) f =
     (if f (fst (utf8_DecodeRuneInString (c # cs)))
      then strings_TrimLeftFunc (drop (snd (utf8_DecodeRuneInString (c # cs)) - 1) cs) f
      else c # cs)"

text \<open>
  \<^verbatim>\<open>lastIndexFunc(s, f, false)\<close>: where the last rune that does not satisfy \<open>f\<close>
  starts, \<open>None\<close> for the \<^verbatim>\<open>-1\<close> of a string that has none.
\<close>

function lastIndexFunc :: "string \<Rightarrow> (int \<Rightarrow> bool) \<Rightarrow> nat option" where
  "lastIndexFunc [] f = None"
| "lastIndexFunc (c # cs) f =
     (let wid = snd (utf8_DecodeLastRuneInString (c # cs))
      in if \<not> f (fst (utf8_DecodeLastRuneInString (c # cs)))
         then Some (length (c # cs) - wid)
         else lastIndexFunc (take (length (c # cs) - wid) (c # cs)) f)"
  by pat_completeness auto
termination
proof (relation "measure (\<lambda>(s, f). length s)")
  show "wf (measure (\<lambda>(s, f). length s))" by simp
next
  fix c :: char and cs :: string and f :: "int \<Rightarrow> bool" and x :: nat
  assume x: "x = snd (utf8_DecodeLastRuneInString (c # cs))"
  define s where "s = c # cs"
  define start where
    "start = length s - 2 - length (takeWhile (\<lambda>c. \<not> utf8_RuneStart c) (take 3 (drop 1 (rev s))))"
  have ne: "s \<noteq> []" by (simp add: s_def)
  then have lt: "start < length s" unfolding start_def by (cases s) simp_all
  obtain r wid where d: "utf8_DecodeRuneInString (drop start s) = (r, wid)" by fastforce
  have "utf8_DecodeLastRuneInString s =
          (if of_char (last s) < utf8_RuneSelf then (of_char (last s), 1)
           else if start + wid \<noteq> length s then (utf8_RuneError, 1) else (r, wid))"
    unfolding utf8_DecodeLastRuneInString_def Let_def start_def [symmetric] d using ne by simp
  with lt have "0 < snd (utf8_DecodeLastRuneInString s)" by (simp split: if_splits)
  then show "((take (length (c # cs) - x) (c # cs), f), c # cs, f) \<in> measure (\<lambda>(s, f). length s)"
    unfolding x s_def by simp
qed

definition strings_TrimRightFunc :: "string \<Rightarrow> (int \<Rightarrow> bool) \<Rightarrow> string" where
  "strings_TrimRightFunc s f =
     (case lastIndexFunc s f of
        None \<Rightarrow> []
      | Some i \<Rightarrow>
          if of_char (s ! i) \<ge> utf8_RuneSelf
          then take (i + snd (utf8_DecodeRuneInString (drop i s))) s
          else take (i + 1) s)"

definition strings_TrimFunc :: "string \<Rightarrow> (int \<Rightarrow> bool) \<Rightarrow> string" where
  "strings_TrimFunc s f = strings_TrimRightFunc (strings_TrimLeftFunc s f) f"

definition strings_TrimSpace :: "string \<Rightarrow> string" where
  "strings_TrimSpace s =
     (let s1 = dropWhile asciiSpace s in
      if s1 \<noteq> [] \<and> of_char (hd s1) \<ge> utf8_RuneSelf then strings_TrimFunc s1 unicode_IsSpace
      else
        (let s2 = rev (dropWhile asciiSpace (rev s1)) in
         if s2 \<noteq> [] \<and> of_char (last s2) \<ge> utf8_RuneSelf
         then strings_TrimRightFunc s2 unicode_IsSpace
         else s2))"

text \<open>
  \<^verbatim>\<open>ToLower\<close> lowers the letters \<^verbatim>\<open>A\<close> to \<^verbatim>\<open>Z\<close> of a string of ASCII bytes. A
  string with a byte outside ASCII goes through \<^verbatim>\<open>Map(unicode.ToLower, s)\<close>, which
  reads it rune by rune and writes the mapped runes, so that every byte that is no
  well-formed UTF-8 comes out as the encoding of \<^verbatim>\<open>RuneError\<close>.
\<close>

definition lowerByte :: "char \<Rightarrow> char" where
  "lowerByte c =
     (case map_of (zip ''ABCDEFGHIJKLMNOPQRSTUVWXYZ'' ''abcdefghijklmnopqrstuvwxyz'') c of
        None \<Rightarrow> c | Some l \<Rightarrow> l)"

definition strings_Map :: "(int \<Rightarrow> int) \<Rightarrow> string \<Rightarrow> string" where
  "strings_Map mapping s = concat (map (\<lambda>c. utf8_EncodeRune (mapping c)) (runes s))"

definition strings_ToLower :: "string \<Rightarrow> string" where
  "strings_ToLower s =
     (if list_all (\<lambda>c. of_char c < utf8_RuneSelf) s then map lowerByte s
      else strings_Map unicode_ToLower s)"

text \<open>
  \<^verbatim>\<open>strings.Split(s, sep)\<close> cuts at the leftmost occurrences of \<^verbatim>\<open>sep\<close>, which do
  not overlap, and always returns at least one piece. The program only calls it with
  the separator CR LF; for the empty separator Go returns the characters one by one.
\<close>

fun splitFrom :: "string \<Rightarrow> string \<Rightarrow> string \<Rightarrow> string list" where
  "splitFrom sep cur [] = [cur]"
| "splitFrom sep cur (c # cs) =
     (if sep \<noteq> [] \<and> strings_HasPrefix (c # cs) sep
      then cur # splitFrom sep [] (drop (length sep) (c # cs))
      else splitFrom sep (cur @ [c]) cs)"

definition strings_Split :: "string \<Rightarrow> string \<Rightarrow> string list" where
  "strings_Split s sep = (if sep = [] then map (\<lambda>c. [c]) s else splitFrom sep [] s)"

text \<open>
  \<^verbatim>\<open>filepath.Split\<close> cuts after the last separator; \<^verbatim>\<open>filepath.Ext\<close> is the
  suffix that starts at the last dot of the last path element, empty without a dot.
\<close>

definition filepath_Split :: "string \<Rightarrow> string \<times> string" where
  "filepath_Split path =
     (let file = rev (takeWhile (\<lambda>c. c \<noteq> CHR ''/'') (rev path))
      in (take (length path - length file) path, file))"

definition filepath_Ext :: "string \<Rightarrow> string" where
  "filepath_Ext path =
     (let elem = takeWhile (\<lambda>c. c \<noteq> CHR ''/'') (rev path)
      in if CHR ''.'' \<in> set elem
         then CHR ''.'' # rev (takeWhile (\<lambda>c. c \<noteq> CHR ''.'') elem)
         else [])"

text \<open>
  \<^verbatim>\<open>strconv.Atoi\<close> on a platform whose \<^verbatim>\<open>int\<close> has 64 bits: an optional sign, then
  decimal digits only, read from the left; the first character that is no digit is a
  syntax error, a value that leaves the range is a range error.
\<close>

datatype numError = ErrSyntax | ErrRange

definition isDigit :: "char \<Rightarrow> bool" where
  "isDigit c \<longleftrightarrow> c \<in> set ''0123456789''"

definition digitVal :: "char \<Rightarrow> int" where
  "digitVal c = (case map_of (zip ''0123456789'' [0, 1, 2, 3, 4, 5, 6, 7, 8, 9]) c of
                   None \<Rightarrow> 0 | Some d \<Rightarrow> d)"

fun parseUint :: "int \<Rightarrow> string \<Rightarrow> numError + int" where
  "parseUint n [] = Inr n"
| "parseUint n (c # cs) =
     (if \<not> isDigit c then Inl ErrSyntax
      else if n * 10 + digitVal c \<ge> 2 ^ 64 then Inl ErrRange
      else parseUint (n * 10 + digitVal c) cs)"

definition strconv_Atoi :: "string \<Rightarrow> numError + int" where
  "strconv_Atoi s =
     (let neg = (s \<noteq> [] \<and> hd s = CHR ''-'');
          ds = (if s \<noteq> [] \<and> (hd s = CHR ''+'' \<or> hd s = CHR ''-'') then tl s else s)
      in if ds = [] then Inl ErrSyntax
         else (case parseUint 0 ds of
                 Inl e \<Rightarrow> Inl e
               | Inr un \<Rightarrow>
                   if \<not> neg \<and> un \<ge> 2 ^ 63 then Inl ErrRange
                   else if neg \<and> un > 2 ^ 63 then Inl ErrRange
                   else Inr (if neg then - un else un)))"

fun formatNat :: "nat \<Rightarrow> string" where
  "formatNat n =
     (if n < 10 then [''0123456789'' ! n]
      else formatNat (n div 10) @ [''0123456789'' ! (n mod 10)])"

definition strconv_FormatInt :: "int \<Rightarrow> string" where
  "strconv_FormatInt i = (if i < 0 then CHR ''-'' # formatNat (nat (- i)) else formatNat (nat i))"

subsection \<open>The two regular expressions\<close>

text \<open>
  \<^verbatim>\<open>reFileRecordUnpack = (?m)([^#]+)#(\d+) ([\w\/]+)$\<close>. A match that starts at a given
  position is unique: each of the three repetitions is followed by a character outside
  its class (\<^verbatim>\<open>#\<close>, a space, the end of a line), so it takes the whole run and giving
  characters back never helps. \<^verbatim>\<open>FindStringSubmatch\<close> returns the match with the
  leftmost start, as the slice of the whole match and the three groups, or nil.
\<close>

definition isWordSlash :: "char \<Rightarrow> bool" where
  "isWordSlash c \<longleftrightarrow>
     c \<in> set ''abcdefghijklmnopqrstuvwxyzABCDEFGHIJKLMNOPQRSTUVWXYZ0123456789_/''"

definition recordAt :: "string \<Rightarrow> string list" where
  "recordAt s =
     (let path = takeWhile (\<lambda>c. c \<noteq> CHR ''#'') s;
          r1 = dropWhile (\<lambda>c. c \<noteq> CHR ''#'') s;
          revn = takeWhile isDigit (drop 1 r1);
          r2 = dropWhile isDigit (drop 1 r1);
          oper = takeWhile isWordSlash (drop 1 r2);
          r3 = dropWhile isWordSlash (drop 1 r2)
      in if path \<noteq> [] \<and> r1 \<noteq> [] \<and> revn \<noteq> [] \<and> take 1 r2 = '' '' \<and> oper \<noteq> []
            \<and> (r3 = [] \<or> take 1 r3 = [CHR 0x0A])
         then [path @ ''#'' @ revn @ '' '' @ oper, path, revn, oper]
         else [])"

fun reFileRecordUnpack :: "string \<Rightarrow> string list" where
  "reFileRecordUnpack [] = []"
| "reFileRecordUnpack (c # cs) =
     (if recordAt (c # cs) \<noteq> [] then recordAt (c # cs) else reFileRecordUnpack cs)"

text \<open>
  \<^verbatim>\<open>reFindHeadActionOp = (?m)headAction\s+([\w\/]+)\<close>, where \<^verbatim>\<open>\s\<close> is tab, newline,
  form feed, carriage return and space.
\<close>

definition reSpace :: "char \<Rightarrow> bool" where
  "reSpace c \<longleftrightarrow> c \<in> set [CHR 0x09, CHR 0x0A, CHR 0x0C, CHR 0x0D, CHR '' '']"

definition headActionAt :: "string \<Rightarrow> string list" where
  "headActionAt s =
     (let r1 = drop 10 s;
          sp = takeWhile reSpace r1;
          oper = takeWhile isWordSlash (dropWhile reSpace r1)
      in if strings_HasPrefix s ''headAction'' \<and> sp \<noteq> [] \<and> oper \<noteq> []
         then [''headAction'' @ sp @ oper, oper]
         else [])"

fun reFindHeadActionOp :: "string \<Rightarrow> string list" where
  "reFindHeadActionOp [] = []"
| "reFindHeadActionOp (c # cs) =
     (if headActionAt (c # cs) \<noteq> [] then headActionAt (c # cs) else reFindHeadActionOp cs)"

subsection \<open>Configuration, environment and what a run leaves behind\<close>

record tomlConfig =
  VerboseLogs :: bool
  PerforceServer :: string
  PerforceUser :: string
  PerforcePass :: string
  BypassKeyphrase :: string
  PathWhitelist :: "string list"

text \<open>
  The program talks to the depot by running the \<^verbatim>\<open>p4\<close> executable:
  \<^verbatim>\<open>CombinedOutput\<close> gives the text the command wrote and, when it could not be run or
  exited with a failure, an error. A \<^verbatim>\<open>range\<close> over a Go map visits every key once, in
  an order the language leaves open: the environment chooses it, for each of the two
  loops over a set. The depot does not change while the program runs: the same command
  gets the same answer.
\<close>

type_synonym error = string

record env =
  p4 :: "string list \<Rightarrow> string \<times> error option"
  rangeAdded :: "stringSet \<Rightarrow> string list"
  rangeDeleted :: "stringSet \<Rightarrow> string list"

definition rangeOk :: "(stringSet \<Rightarrow> string list) \<Rightarrow> bool" where
  "rangeOk f \<longleftrightarrow> (\<forall>S. finite S \<longrightarrow> set (f S) = S \<and> distinct (f S))"

text \<open>
  What the program prints on standard output, one constructor for each
  \<^verbatim>\<open>fmt.Print\<close> of the source, with the values it formats:
  \<^item> \<open>MissingMeta p\<close> is \<^verbatim>\<open>Missing .meta file for 'p'\<close>,
  \<^item> \<open>MissingAsset p\<close> is \<^verbatim>\<open>Missing asset for .meta file 'p'\<close>,
  \<^item> \<open>OrphanedMeta p\<close> is \<^verbatim>\<open>Need to delete the orphaned .meta for 'p'\<close>,
  \<^item> \<open>FstatFailed p e\<close> is \<^verbatim>\<open>[p4unity] fstat failed for 'p' ( e )\<close>,
  \<^item> \<open>ParseFailed item\<close> is \<^verbatim>\<open>[p4unity] file parse failed for 'item'\<close>,
  \<^item> \<open>Bypassing\<close> is \<^verbatim>\<open>[p4unity] bypassing validation\<close>, \<open>Success\<close> is \<^verbatim>\<open>success\<close>,
  \<^item> \<open>NoFileRecords n\<close> is \<^verbatim>\<open>[p4unity] changelist [n] has no file records?\<close>,
  \<^item> \<open>DescribeEmpty n\<close> is \<^verbatim>\<open>[p4unity] p4 describe [n] output is empty\<close>,
  \<^item> \<open>NoChangelist n\<close> is \<^verbatim>\<open>[p4unity] cannot find changelist [n]\<close>,
  \<^item> \<open>LaunchFailed e out\<close> is \<^verbatim>\<open>[p4unity] failed to launch P4; e out\<close>,
  \<^item> \<open>NotANumber a e\<close> is \<^verbatim>\<open>[p4unity] changelist a not a number (e)\<close>,
  \<^item> \<open>Usage\<close> is \<^verbatim>\<open>usage: p4unity <changelist>\<close>, \<open>Blank\<close> the two newlines of the start.
  The log of \<^verbatim>\<open>zap\<close> is a sink and is left out.
\<close>

datatype printed =
    Blank
  | Usage
  | NotANumber string numError
  | LaunchFailed error string
  | NoChangelist int
  | DescribeEmpty int
  | NoFileRecords int
  | Bypassing
  | ParseFailed string
  | FstatFailed string error
  | MissingMeta string
  | MissingAsset string
  | OrphanedMeta string
  | Success

text \<open>
  The trace of a run: the lines printed so far and the depot paths handed to
  \<^verbatim>\<open>p4 fstat\<close> so far, both in order of time.
\<close>

record trace =
  stdout :: "printed list"
  fstats :: "string list"

definition emit :: "printed \<Rightarrow> trace \<Rightarrow> trace" where
  "emit ln t = t\<lparr>stdout := stdout t @ [ln]\<rparr>"

subsection \<open>\<^verbatim>\<open>filterStringsByType\<close> and \<^verbatim>\<open>fileExistsInDepot\<close>\<close>

fun filterStringsByType :: "string list \<Rightarrow> string \<Rightarrow> string list" where
  "filterStringsByType [] p4type = []"
| "filterStringsByType (str # s) p4type =
     (if strings_HasPrefix str p4type
      then (let str' = strings_TrimSpace (drop (length p4type) str)
            in if str' \<noteq> [] then str' # filterStringsByType s p4type
               else filterStringsByType s p4type)
      else filterStringsByType s p4type)"

definition fileExistsInDepot ::
  "tomlConfig \<Rightarrow> env \<Rightarrow> string \<Rightarrow> trace \<Rightarrow> trace \<times> bool \<times> error option" where
  "fileExistsInDepot cfg e depotPath t =
     (let t1 = t\<lparr>fstats := fstats t @ [depotPath]\<rparr> in
      case p4 e [''-p'', PerforceServer cfg, ''-u'', PerforceUser cfg,
                 ''-P'', PerforcePass cfg, ''-s'', ''fstat'', depotPath] of
        (fstatOut, Some err) \<Rightarrow> (emit (LaunchFailed err fstatOut) t1, False, Some err)
      | (fstatOut, None) \<Rightarrow>
          (let fstatHeadAction = reFindHeadActionOp fstatOut in
           if length fstatHeadAction = 0 then (t1, False, None)
           else if \<not> has opsExists (fstatHeadAction ! 1) then (t1, False, None)
           else (t1, True, None)))"

subsection \<open>The loops of \<^verbatim>\<open>app\<close>\<close>

record fileSets =
  filesBeingAdded :: stringSet
  filesBeingAddedIgnoringCase :: stringSet
  filesBeingDeleted :: stringSet
  filesBeingDeletedIgnoringCase :: stringSet

definition noFiles :: fileSets where
  "noFiles = \<lparr>filesBeingAdded = {}, filesBeingAddedIgnoringCase = {},
              filesBeingDeleted = {}, filesBeingDeletedIgnoringCase = {}\<rparr>"

text \<open>
  One turn of the loop over the file records. \<open>None\<close> is the return of the parse
  failure; \<open>Some\<close> carries the sets on to the next record, also after a
  \<^verbatim>\<open>continue\<close>.
\<close>

definition recordStep :: "tomlConfig \<Rightarrow> string \<Rightarrow> fileSets \<Rightarrow> fileSets option" where
  "recordStep cfg item fs =
     (let matches = reFileRecordUnpack item in
      if length matches \<noteq> 4 then None
      else
        (let filePath = matches ! 1;
             vcsOperation = matches ! 3;
             (itemDirectory, itemFilename) = filepath_Split filePath
         in if strings_Contains itemDirectory ''~/'' then Some fs
            else if strings_HasPrefix itemFilename ''.'' then Some fs
            else if \<not> list_ex (\<lambda>whitelist. strings_HasPrefix itemDirectory whitelist)
                       (PathWhitelist cfg) then Some fs
            else if \<not> strings_Contains itemDirectory ''/Assets/'' then Some fs
            else
              (let fs1 = (if has opsAdd vcsOperation
                          then fs\<lparr>filesBeingAdded := add (filesBeingAdded fs) filePath,
                                  filesBeingAddedIgnoringCase :=
                                    add (filesBeingAddedIgnoringCase fs) (strings_ToLower filePath)\<rparr>
                          else fs);
                   fs2 = (if has opsDel vcsOperation
                          then fs1\<lparr>filesBeingDeleted := add (filesBeingDeleted fs1) filePath,
                                   filesBeingDeletedIgnoringCase :=
                                     add (filesBeingDeletedIgnoringCase fs1) (strings_ToLower filePath)\<rparr>
                          else fs1)
               in Some fs2)))"

text \<open>The loop: \<open>Inl item\<close> when \<open>item\<close> failed to parse, else the four sets.\<close>

fun recordLoop :: "tomlConfig \<Rightarrow> string list \<Rightarrow> fileSets \<Rightarrow> string + fileSets" where
  "recordLoop cfg [] fs = Inr fs"
| "recordLoop cfg (item # p4info) fs =
     (case recordStep cfg item fs of
        None \<Rightarrow> Inl item
      | Some fs' \<Rightarrow> recordLoop cfg p4info fs')"

text \<open>
  A \<^verbatim>\<open>for key := range set\<close> whose body may return from \<^verbatim>\<open>app\<close>: the keys in
  the order of the visit, the state the body updates, and \<open>Some code\<close> as soon as
  a turn returns.
\<close>

fun rangeLoop :: "(string \<Rightarrow> 's \<Rightarrow> 's \<times> int option) \<Rightarrow> string list \<Rightarrow> 's \<Rightarrow> 's \<times> int option" where
  "rangeLoop body [] s = (s, None)"
| "rangeLoop body (k # ks) s =
     (case body k s of
        (s', Some code) \<Rightarrow> (s', Some code)
      | (s', None) \<Rightarrow> rangeLoop body ks s')"

text \<open>
  One turn of the loop over the added files. The result holds the trace, the flag
  \<^verbatim>\<open>allowCommitToContinue\<close> and, when the turn returns from \<^verbatim>\<open>app\<close>, the exit code.
\<close>

definition addStep ::
  "tomlConfig \<Rightarrow> env \<Rightarrow> stringSet \<Rightarrow> stringSet \<Rightarrow> string \<Rightarrow> trace \<times> bool
     \<Rightarrow> (trace \<times> bool) \<times> int option" where
  "addStep cfg e added addedIgnoringCase fadd tb =
     (let (t, allowCommitToContinue) = tb;
          fileExtension = filepath_Ext fadd
      in if fileExtension \<noteq> ''.meta'' then
           (let fileWithMeta = fadd @ ''.meta'' in
            if has added fileWithMeta then (tb, None)
            else if has addedIgnoringCase (strings_ToLower fileWithMeta) then (tb, None)
            else (case fileExistsInDepot cfg e fileWithMeta t of
                    (t1, foundInDepot, Some err) \<Rightarrow>
                      ((emit (FstatFailed fileWithMeta err) t1, allowCommitToContinue),
                       Some p4ExitErrorException)
                  | (t1, foundInDepot, None) \<Rightarrow>
                      if foundInDepot then ((t1, allowCommitToContinue), None)
                      else ((emit (MissingMeta fadd) t1, False), None)))
         else
           (let fileWithoutMeta = take (length fadd - length ''.meta'') fadd;
                remainingExtension = strings_TrimSpace (filepath_Ext fileWithoutMeta)
            in if length remainingExtension = 0 then (tb, None)
               else if has added fileWithoutMeta then (tb, None)
               else if has addedIgnoringCase (strings_ToLower fileWithoutMeta) then (tb, None)
               else (case fileExistsInDepot cfg e fileWithoutMeta t of
                       (t1, foundInDepot, Some err) \<Rightarrow>
                         ((emit (FstatFailed fileWithoutMeta err) t1, allowCommitToContinue),
                          Some p4ExitErrorException)
                     | (t1, foundInDepot, None) \<Rightarrow>
                         if foundInDepot then ((t1, allowCommitToContinue), None)
                         else ((emit (MissingAsset fadd) t1, False), None))))"

definition addLoop ::
  "tomlConfig \<Rightarrow> env \<Rightarrow> stringSet \<Rightarrow> stringSet \<Rightarrow> string list \<Rightarrow> trace \<times> bool
     \<Rightarrow> (trace \<times> bool) \<times> int option" where
  "addLoop cfg e added addedIgnoringCase order tb =
     rangeLoop (addStep cfg e added addedIgnoringCase) order tb"

text \<open>
  One turn of the loop over the deleted files. The failure message of this loop
  formats \<^verbatim>\<open>fdel\<close>, not the path that was looked up. The branch of a deleted
  \<^verbatim>\<open>.meta\<close> file is empty in the source.
\<close>

definition delStep ::
  "tomlConfig \<Rightarrow> env \<Rightarrow> stringSet \<Rightarrow> stringSet \<Rightarrow> string \<Rightarrow> trace \<times> bool
     \<Rightarrow> (trace \<times> bool) \<times> int option" where
  "delStep cfg e deleted deletedIgnoringCase fdel tb =
     (let (t, allowCommitToContinue) = tb;
          fileExtension = filepath_Ext fdel
      in if fileExtension \<noteq> ''.meta'' then
           (let fileWithMeta = fdel @ ''.meta'' in
            if has deleted fileWithMeta then (tb, None)
            else if has deletedIgnoringCase (strings_ToLower fileWithMeta) then (tb, None)
            else (case fileExistsInDepot cfg e fileWithMeta t of
                    (t1, foundInDepot, Some err) \<Rightarrow>
                      ((emit (FstatFailed fdel err) t1, allowCommitToContinue),
                       Some p4ExitErrorException)
                  | (t1, foundInDepot, None) \<Rightarrow>
                      if \<not> foundInDepot then ((t1, allowCommitToContinue), None)
                      else ((emit (OrphanedMeta fdel) t1, False), None)))
         else (tb, None))"

definition delLoop ::
  "tomlConfig \<Rightarrow> env \<Rightarrow> stringSet \<Rightarrow> stringSet \<Rightarrow> string list \<Rightarrow> trace \<times> bool
     \<Rightarrow> (trace \<times> bool) \<times> int option" where
  "delLoop cfg e deleted deletedIgnoringCase order tb =
     rangeLoop (delStep cfg e deleted deletedIgnoringCase) order tb"

subsection \<open>\<^verbatim>\<open>app\<close>\<close>

text \<open>
  The part of \<^verbatim>\<open>app\<close> from the two filtered blocks of the report on: the checks
  for an empty block, the bypass, the loop over the records and the two passes.
\<close>

definition validate ::
  "tomlConfig \<Rightarrow> env \<Rightarrow> int \<Rightarrow> string list \<Rightarrow> string list \<Rightarrow> trace \<Rightarrow> trace \<times> int" where
  "validate cfg e changelist p4text p4info t =
     (let p4headerLines = length p4text;
          p4fileCount = length p4info
      in if p4headerLines = 0 then (emit (DescribeEmpty changelist) t, p4ExitErrorEmpty)
         else if p4fileCount = 0 then (emit (NoFileRecords changelist) t, p4ExitErrorEmpty)
         else if list_ex (\<lambda>ln. strings_Contains ln (BypassKeyphrase cfg)) (drop 1 p4text)
           then (emit Bypassing t, p4ExitBypass)
         else
           (case recordLoop cfg p4info noFiles of
              Inl item \<Rightarrow> (emit (ParseFailed item) t, p4ExitErrorException)
            | Inr fs \<Rightarrow>
                (case addLoop cfg e (filesBeingAdded fs) (filesBeingAddedIgnoringCase fs)
                        (rangeAdded e (filesBeingAdded fs)) (t, True) of
                   ((t1, allow1), Some code) \<Rightarrow> (t1, code)
                 | ((t1, allow1), None) \<Rightarrow>
                     (case delLoop cfg e (filesBeingDeleted fs) (filesBeingDeletedIgnoringCase fs)
                             (rangeDeleted e (filesBeingDeleted fs)) (t1, allow1) of
                        ((t2, allow2), Some code) \<Rightarrow> (t2, code)
                      | ((t2, allowCommitToContinue), None) \<Rightarrow>
                          if allowCommitToContinue then (emit Success t2, p4ExitSuccess)
                          else (t2, p4ExitProblems)))))"

text \<open>
  \<^verbatim>\<open>app\<close> itself: the argument, the \<^verbatim>\<open>p4 describe\<close> call and the split of its
  output. \<^verbatim>\<open>p4lines[0]\<close> exists, since \<^verbatim>\<open>strings.Split\<close> never returns an empty
  slice; an index out of range would end the program with status 2.
\<close>

definition app :: "tomlConfig \<Rightarrow> env \<Rightarrow> string list \<Rightarrow> trace \<times> int" where
  "app cfg e argsWithoutProg =
     (let t = \<lparr>stdout = [Blank], fstats = []\<rparr> in
      if length argsWithoutProg < 1 then (emit Usage t, p4ExitErrorUsage)
      else
        (case strconv_Atoi (argsWithoutProg ! 0) of
           Inl err \<Rightarrow> (emit (NotANumber (argsWithoutProg ! 0) err) t, p4ExitErrorUsage)
         | Inr changelist \<Rightarrow>
             (case p4 e [''-p'', PerforceServer cfg, ''-u'', PerforceUser cfg,
                         ''-P'', PerforcePass cfg, ''-s'', ''describe'', ''-s'',
                         strconv_FormatInt changelist] of
                (p4out, Some err) \<Rightarrow> (emit (LaunchFailed err p4out) t, p4ExitErrorUsage)
              | (p4outString, None) \<Rightarrow>
                  (case strings_Split p4outString [CHR 0x0D, CHR 0x0A] of
                     [] \<Rightarrow> (t, 2)
                   | first # others \<Rightarrow>
                       if strings_Contains first ''no such changelist''
                       then (emit (NoChangelist changelist) t, p4ExitErrorUsage)
                       else validate cfg e changelist
                              (filterStringsByType (first # others) ''text:'')
                              (filterStringsByType (first # others) ''info1:'') t))))"

subsection \<open>Notions the properties are stated with\<close>

text \<open>
  What \<^verbatim>\<open>fileExistsInDepot\<close> returns for a path: \<open>(True, None)\<close> when the depot
  has the file with a head action of \<open>opsExists\<close>, \<open>(False, None)\<close> when it has
  not, \<open>(False, Some err)\<close> when the look-up itself failed.
\<close>

definition depotAnswer :: "tomlConfig \<Rightarrow> env \<Rightarrow> string \<Rightarrow> bool \<times> error option" where
  "depotAnswer cfg e depotPath =
     snd (fileExistsInDepot cfg e depotPath \<lparr>stdout = [], fstats = []\<rparr>)"

text \<open>The lines printed and the paths looked up between two points of a run.\<close>

definition emitted :: "trace \<Rightarrow> trace \<Rightarrow> printed list" where
  "emitted t t' = drop (length (stdout t)) (stdout t')"

definition lookedUp :: "trace \<Rightarrow> trace \<Rightarrow> string list" where
  "lookedUp t t' = drop (length (fstats t)) (fstats t')"

definition crlf :: string where
  "crlf = [CHR 0x0D, CHR 0x0A]"

text \<open>The two blocks of a report: \<^verbatim>\<open>p4text\<close> and \<^verbatim>\<open>p4info\<close> of the source.\<close>

definition headerOf :: "string \<Rightarrow> string list" where
  "headerOf report = filterStringsByType (strings_Split report crlf) ''text:''"

definition recordsOf :: "string \<Rightarrow> string list" where
  "recordsOf report = filterStringsByType (strings_Split report crlf) ''info1:''"

text \<open>
  \<open>describes cfg e args changelist report\<close>: the run with arguments \<open>args\<close> gets as
  far as the report. The first argument is the number \<open>changelist\<close>,
  \<^verbatim>\<open>p4 describe\<close> ran and wrote \<open>report\<close>, and the first line of the report does
  not say that the changelist is missing.
\<close>

definition describes :: "tomlConfig \<Rightarrow> env \<Rightarrow> string list \<Rightarrow> int \<Rightarrow> string \<Rightarrow> bool" where
  "describes cfg e args changelist report \<longleftrightarrow>
     args \<noteq> [] \<and> strconv_Atoi (args ! 0) = Inr changelist
     \<and> p4 e [''-p'', PerforceServer cfg, ''-u'', PerforceUser cfg, ''-P'', PerforcePass cfg,
             ''-s'', ''describe'', ''-s'', strconv_FormatInt changelist] = (report, None)
     \<and> \<not> strings_Contains (hd (strings_Split report crlf)) ''no such changelist''"

text \<open>
  The shape of a file record as the specification words it: somewhere in the line
  stand a path without \<^verbatim>\<open>#\<close>, a \<^verbatim>\<open>#\<close>, a revision of digits, a space and an
  operation of word characters and \<^verbatim>\<open>/\<close>, and the operation ends the line.
\<close>

definition recordShape :: "string \<Rightarrow> bool" where
  "recordShape s \<longleftrightarrow>
     (\<exists>pre path revn oper post.
        s = pre @ path @ ''#'' @ revn @ '' '' @ oper @ post
        \<and> path \<noteq> [] \<and> CHR ''#'' \<notin> set path
        \<and> revn \<noteq> [] \<and> (\<forall>c\<in>set revn. isDigit c)
        \<and> oper \<noteq> [] \<and> (\<forall>c\<in>set oper. isWordSlash c)
        \<and> (post = [] \<or> hd post = CHR 0x0A))"

text \<open>The bypass: a line of the header after the first holds the key phrase.\<close>

definition bypassed :: "tomlConfig \<Rightarrow> string \<Rightarrow> bool" where
  "bypassed cfg report \<longleftrightarrow>
     list_ex (\<lambda>ln. strings_Contains ln (BypassKeyphrase cfg)) (drop 1 (headerOf report))"

definition violation :: "printed \<Rightarrow> bool" where
  "violation ln \<longleftrightarrow> (case ln of MissingMeta p \<Rightarrow> True | MissingAsset p \<Rightarrow> True
                      | OrphanedMeta p \<Rightarrow> True | _ \<Rightarrow> False)"

definition lookupFailed :: "printed \<Rightarrow> bool" where
  "lookupFailed ln \<longleftrightarrow> (case ln of FstatFailed p err \<Rightarrow> True | _ \<Rightarrow> False)"

subsection \<open>Changelists and depots to run the program on\<close>

definition cfgUnity :: tomlConfig where
  "cfgUnity = \<lparr>VerboseLogs = False, PerforceServer = ''localhost:1666'', PerforceUser = ''u'',
               PerforcePass = ''p'', BypassKeyphrase = ''p4unity-bypass'',
               PathWhitelist = [''//'']\<rparr>"

text \<open>
  A depot that answers \<^verbatim>\<open>p4 describe\<close> with the lines \<open>ls\<close> and \<^verbatim>\<open>p4 fstat\<close> of a
  path with \<open>fstat path\<close>; both loops over a set visit it in the order \<open>order\<close>.
\<close>

definition reportOf :: "string list \<Rightarrow> string" where
  "reportOf ls = concat (map (\<lambda>l. l @ crlf) ls)"

definition depot ::
  "string list \<Rightarrow> (string \<Rightarrow> string \<times> error option) \<Rightarrow> (stringSet \<Rightarrow> string list) \<Rightarrow> env" where
  "depot ls fstat order =
     \<lparr>p4 = (\<lambda>args. if args ! 7 = ''describe'' then (reportOf ls, None)
                    else fstat (last args)),
      rangeAdded = order, rangeDeleted = order\<rparr>"

definition noSuchFile :: "string \<Rightarrow> string \<times> error option" where
  "noSuchFile path = (''error: '' @ path @ '' - no such file(s).'', None)"

definition headEdit :: "string \<Rightarrow> string \<times> error option" where
  "headEdit path = (''info1: depotFile '' @ path @ crlf @ ''info1: headAction edit'', None)"

definition connectFailed :: "string \<Rightarrow> string \<times> error option" where
  "connectFailed path = (''error: connect failed'', Some ''exit status 1'')"

definition failsOn :: "string \<Rightarrow> string \<Rightarrow> string \<times> error option" where
  "failsOn bad path = (if path = bad then connectFailed path else noSuchFile path)"

definition descending :: "stringSet \<Rightarrow> string list" where
  "descending S = rev (sorted_list_of_set S)"

definition clBypass :: "string list" where
  "clBypass = [''text: Change 1 by u@c'', ''text:  hotfix p4unity-bypass'',
               ''info1: //d/Assets/a.png#1 add'']"

definition clBypassNoFiles :: "string list" where
  "clBypassNoFiles = [''text: Change 1 by u@c'', ''text:  hotfix p4unity-bypass'']"

definition clCase :: "string list" where
  "clCase = [''text: Change 1 by u@c'', ''text:  art'',
             ''info1: //d/Assets/Foo.PNG#1 add'', ''info1: //d/Assets/foo.png.meta#1 add'']"

definition clPaired :: "string list" where
  "clPaired = [''text: Change 1 by u@c'', ''text:  art'',
               ''info1: //d/Assets/a.png#1 add'', ''info1: //d/Assets/a.png.meta#1 add'']"

definition clAsset :: "string list" where
  "clAsset = [''text: Change 1 by u@c'', ''text:  art'', ''info1: //d/Assets/a.png#1 add'']"

definition clTwoAssets :: "string list" where
  "clTwoAssets = [''text: Change 1 by u@c'', ''text:  art'',
                  ''info1: //d/Assets/a.png#1 add'', ''info1: //d/Assets/c.png#1 add'']"

definition clDelete :: "string list" where
  "clDelete = [''text: Change 1 by u@c'', ''text:  tidy'', ''info1: //d/Assets/b.png#2 delete'']"

definition clDeleteMeta :: "string list" where
  "clDeleteMeta = [''text: Change 1 by u@c'', ''text:  tidy'',
                   ''info1: //d/Assets/b.png.meta#2 delete'']"

definition clDirMeta :: "string list" where
  "clDirMeta = [''text: Change 1 by u@c'', ''text:  art'', ''info1: //d/Assets/Dir.meta#1 add'']"

definition clMalformed :: "string list" where
  "clMalformed = [''text: Change 1 by u@c'', ''text:  art'',
                  ''info1: //d/Assets/a.png#1 add'', ''info1: //d/Assets/b.png'']"

definition clTilde :: "string list" where
  "clTilde = [''text: Change 1 by u@c'', ''text:  docs'',
              ''info1: //d/Assets/Docs~/a.png#1 add'']"

definition clEmptyPhrase :: "string list" where
  "clEmptyPhrase = [''text: Change 1 by u@c'', ''text:  art'']"

definition clNoHeader :: "string list" where
  "clNoHeader = [''info1: //d/Assets/a.png#1 add'']"

definition clNothing :: "string list" where
  "clNothing = [''exit: 0'']"

text \<open>
  Reports with text outside ASCII: an asset \<^verbatim>\<open>U+00C9.PNG\<close> with the metadata file
  \<^verbatim>\<open>U+00E9.png.meta\<close>, and lines that hold or end in the no-break space
  \<^verbatim>\<open>U+00A0\<close>.
\<close>

definition nbsp :: string where
  "nbsp = [CHR 0xC2, CHR 0xA0]"

definition clAccent :: "string list" where
  "clAccent = [''text: Change 1 by u@c'', ''text:  art'',
               ''info1: //d/Assets/'' @ [CHR 0xC3, CHR 0x89] @ ''.PNG#1 add'',
               ''info1: //d/Assets/'' @ [CHR 0xC3, CHR 0xA9] @ ''.png.meta#1 add'']"

definition clRecordNbsp :: "string list" where
  "clRecordNbsp = [''text: Change 1 by u@c'', ''text:  art'',
                   ''info1: //d/Assets/a.png#1 add'' @ nbsp]"

definition clHeaderNbsp :: "string list" where
  "clHeaderNbsp = [''text: '' @ nbsp, ''text:  hotfix p4unity-bypass'',
                   ''info1: //d/Assets/a.png#1 add'']"

definition clSecondNbsp :: "string list" where
  "clSecondNbsp = [''text: Change 1 by u@c'', ''text: '' @ nbsp,
                   ''info1: //d/Assets/a.png#1 add'']"

definition clOnlyNbsp :: "string list" where
  "clOnlyNbsp = [''text: '' @ nbsp, ''info1: //d/a#1 add'']"

subsection \<open>Notions the proofs are made with\<close>

text \<open>
  The start of every run: the two newlines are printed, nothing is looked up. A turn
  of a pass is described by what it does from the empty trace with the flag set: the
  lines it prints, the paths it looks up, whether it leaves the flag set and whether it
  returns from the program.
\<close>

definition start :: trace where
  "start = \<lparr>stdout = [Blank], fstats = []\<rparr>"

definition nil :: trace where
  "nil = \<lparr>stdout = [], fstats = []\<rparr>"

definition prints ::
  "(string \<Rightarrow> trace \<times> bool \<Rightarrow> (trace \<times> bool) \<times> int option) \<Rightarrow> string \<Rightarrow> printed list" where
  "prints body k = stdout (fst (fst (body k (nil, True))))"

definition looks ::
  "(string \<Rightarrow> trace \<times> bool \<Rightarrow> (trace \<times> bool) \<times> int option) \<Rightarrow> string \<Rightarrow> string list" where
  "looks body k = fstats (fst (fst (body k (nil, True))))"

definition passes ::
  "(string \<Rightarrow> trace \<times> bool \<Rightarrow> (trace \<times> bool) \<times> int option) \<Rightarrow> string \<Rightarrow> bool" where
  "passes body k = snd (fst (body k (nil, True)))"

definition returns ::
  "(string \<Rightarrow> trace \<times> bool \<Rightarrow> (trace \<times> bool) \<times> int option) \<Rightarrow> string \<Rightarrow> int option" where
  "returns body k = snd (body k (nil, True))"

text \<open>
  The part of \<^verbatim>\<open>app\<close> before the report is looked at: either it returns (the usage
  errors), or it hands the number of the changelist and the report on.
\<close>

definition front :: "tomlConfig \<Rightarrow> env \<Rightarrow> string list \<Rightarrow> (trace \<times> int) + (int \<times> string)" where
  "front cfg e args =
     (if length args < 1 then Inl (emit Usage start, p4ExitErrorUsage)
      else
        (case strconv_Atoi (args ! 0) of
           Inl err \<Rightarrow> Inl (emit (NotANumber (args ! 0) err) start, p4ExitErrorUsage)
         | Inr changelist \<Rightarrow>
             (case p4 e [''-p'', PerforceServer cfg, ''-u'', PerforceUser cfg,
                         ''-P'', PerforcePass cfg, ''-s'', ''describe'', ''-s'',
                         strconv_FormatInt changelist] of
                (p4out, Some err) \<Rightarrow> Inl (emit (LaunchFailed err p4out) start, p4ExitErrorUsage)
              | (report, None) \<Rightarrow>
                  if strings_Contains (hd (strings_Split report crlf)) ''no such changelist''
                  then Inl (emit (NoChangelist changelist) start, p4ExitErrorUsage)
                  else Inr (changelist, report))))"

text \<open>A body is framed when its turn only appends to the trace and only clears the flag.\<close>

definition framed ::
  "(string \<Rightarrow> trace \<times> bool \<Rightarrow> (trace \<times> bool) \<times> int option) \<Rightarrow> bool" where
  "framed body \<longleftrightarrow>
     (\<forall>k t a. body k (t, a) =
        ((\<lparr>stdout = stdout t @ prints body k, fstats = fstats t @ looks body k\<rparr>,
          a \<and> passes body k), returns body k))"

text \<open>A trace grows when lines and look-ups are only added at its end.\<close>

definition grows :: "trace \<Rightarrow> trace \<Rightarrow> bool" where
  "grows t t' \<longleftrightarrow>
     stdout t' = stdout t @ emitted t t' \<and> fstats t' = fstats t @ lookedUp t t'"

text \<open>What \<^verbatim>\<open>fileExistsInDepot\<close> prints itself: the note of a failed launch.\<close>

definition launchNote :: "tomlConfig \<Rightarrow> env \<Rightarrow> string \<Rightarrow> printed list" where
  "launchNote cfg e path = stdout (fst (fileExistsInDepot cfg e path nil))"

text \<open>
  The shape of a turn, the same for both passes: it looks at most one path up; it
  returns exactly when that look-up fails, with the status of an exception and the
  failure note as its last line; otherwise it prints at most one line, a violation, and
  clears the flag exactly then.
\<close>

definition turnShape ::
  "tomlConfig \<Rightarrow> env \<Rightarrow> (string \<Rightarrow> trace \<times> bool \<Rightarrow> (trace \<times> bool) \<times> int option) \<Rightarrow> bool" where
  "turnShape cfg e body \<longleftrightarrow>
     (\<forall>k. (looks body k = [] \<and> prints body k = [] \<and> passes body k \<and> returns body k = None)
        \<or> (\<exists>x. looks body k = [x] \<and>
              (case snd (depotAnswer cfg e x) of
                 Some err \<Rightarrow> returns body k = Some p4ExitErrorException \<and> passes body k \<and>
                    (\<exists>q note. prints body k = note @ [FstatFailed q err] \<and>
                        (\<forall>ln\<in>set note. \<exists>er out. ln = LaunchFailed er out))
               | None \<Rightarrow> returns body k = None \<and>
                    (prints body k = [] \<and> passes body k
                     \<or> (\<exists>ln. prints body k = [ln] \<and> violation ln \<and> \<not> passes body k)))))"

section \<open>Properties of the program\<close>

declare formatNat.simps [simp del]

subsection \<open>The report reaches the validation\<close>

lemma splitFrom_not_Nil: "splitFrom sep cur s \<noteq> []"
  by (induction sep cur s rule: splitFrom.induct) auto

lemma strings_Split_crlf_not_Nil: "strings_Split s crlf \<noteq> []"
  by (simp add: strings_Split_def crlf_def splitFrom_not_Nil)

lemma app_validate:
  assumes "describes cfg e args changelist report"
  shows "app cfg e args =
           validate cfg e changelist (headerOf report) (recordsOf report)
             \<lparr>stdout = [Blank], fstats = []\<rparr>"
proof -
  obtain first others where sp: "strings_Split report crlf = first # others"
    using strings_Split_crlf_not_Nil [of report] by (cases "strings_Split report crlf") auto
  from assms sp have nc: "\<not> strings_Contains first ''no such changelist''"
    by (simp add: describes_def)
  from assms have a: "\<not> length args < 1" "strconv_Atoi (args ! 0) = Inr changelist"
    and d: "p4 e [''-p'', PerforceServer cfg, ''-u'', PerforceUser cfg, ''-P'', PerforcePass cfg,
             ''-s'', ''describe'', ''-s'', strconv_FormatInt changelist] = (report, None)"
    by (auto simp: describes_def)
  from sp have sp': "strings_Split report [CHR 0x0D, CHR 0x0A] = first # others"
    by (simp add: crlf_def)
  show ?thesis
    unfolding app_def Let_def headerOf_def recordsOf_def
    using a d sp sp' nc by simp
qed

subsection \<open>A loop over a set whose body is framed\<close>

lemma trace_nil_append [simp]: "\<lparr>stdout = stdout t @ [], fstats = fstats t @ []\<rparr> = t"
  by simp

lemma rangeLoop_completes:
  assumes "framed body" and "\<forall>k\<in>set ks. returns body k = None"
  shows "rangeLoop body ks (t, a) =
           ((\<lparr>stdout = stdout t @ concat (map (prints body) ks),
              fstats = fstats t @ concat (map (looks body) ks)\<rparr>,
             a \<and> (\<forall>k\<in>set ks. passes body k)), None)"
  using assms(2)
proof (induction ks arbitrary: t a)
  case Nil
  then show ?case by simp
next
  case (Cons k ks)
  from assms(1) have step: "body k (t, a) =
      ((\<lparr>stdout = stdout t @ prints body k, fstats = fstats t @ looks body k\<rparr>,
        a \<and> passes body k), returns body k)"
    by (simp add: framed_def)
  from Cons.prems have "returns body k = None" "\<forall>j\<in>set ks. returns body j = None"
    by simp_all
  with step Cons.IH show ?case by auto
qed

lemma rangeLoop_returns:
  assumes "framed body" and "\<forall>j\<in>set pre. returns body j = None" and "returns body k = Some c"
  shows "rangeLoop body (pre @ k # post) (t, a) =
           ((\<lparr>stdout = stdout t @ concat (map (prints body) pre) @ prints body k,
              fstats = fstats t @ concat (map (looks body) pre) @ looks body k\<rparr>,
             a \<and> (\<forall>j\<in>set pre. passes body j) \<and> passes body k), Some c)"
  using assms(2)
proof (induction pre arbitrary: t a)
  case Nil
  from assms(1) have "body k (t, a) =
      ((\<lparr>stdout = stdout t @ prints body k, fstats = fstats t @ looks body k\<rparr>,
        a \<and> passes body k), returns body k)"
    by (simp add: framed_def)
  with assms(3) show ?case by simp
next
  case (Cons j pre)
  from assms(1) have step: "body j (t, a) =
      ((\<lparr>stdout = stdout t @ prints body j, fstats = fstats t @ looks body j\<rparr>,
        a \<and> passes body j), returns body j)"
    by (simp add: framed_def)
  from Cons.prems have "returns body j = None" "\<forall>i\<in>set pre. returns body i = None"
    by simp_all
  with step Cons.IH show ?case by auto
qed

text \<open>Every visit either completes or splits at the first key whose turn returns.\<close>

lemma range_cases:
  "(\<forall>k\<in>set ks. returns body k = None) \<or>
   (\<exists>pre k post c. ks = pre @ k # post \<and> (\<forall>j\<in>set pre. returns body j = None)
                    \<and> returns body k = Some c)"
proof (cases "\<forall>k\<in>set ks. returns body k = None")
  case True
  then show ?thesis by simp
next
  case False
  then have "\<exists>k\<in>set ks. returns body k \<noteq> None" by simp
  then obtain pre k post where "ks = pre @ k # post" "returns body k \<noteq> None"
    "\<forall>j\<in>set pre. \<not> returns body j \<noteq> None"
    using split_list_first_prop [of ks "\<lambda>k. returns body k \<noteq> None"] by blast
  then show ?thesis by auto
qed

subsection \<open>The look-up and the turns of the two passes\<close>

lemma fileExistsInDepot_eq:
  "fileExistsInDepot cfg e path t =
     (\<lparr>stdout = stdout t @ launchNote cfg e path, fstats = fstats t @ [path]\<rparr>,
      depotAnswer cfg e path)"
  by (simp add: launchNote_def depotAnswer_def nil_def fileExistsInDepot_def Let_def emit_def
           split: prod.splits option.splits)

lemma launchNote_ok: "snd (depotAnswer cfg e path) = None \<Longrightarrow> launchNote cfg e path = []"
  by (auto simp: launchNote_def depotAnswer_def nil_def fileExistsInDepot_def Let_def emit_def
           split: prod.splits option.splits if_splits)

lemma launchNote_err:
  "snd (depotAnswer cfg e path) = Some err \<Longrightarrow> \<exists>out. launchNote cfg e path = [LaunchFailed err out]"
  by (auto simp: launchNote_def depotAnswer_def nil_def fileExistsInDepot_def Let_def emit_def
           split: prod.splits option.splits if_splits)

lemma launchNote_cases:
  "launchNote cfg e path = [] \<or> (\<exists>err out. launchNote cfg e path = [LaunchFailed err out])"
  by (cases "snd (depotAnswer cfg e path)") (auto dest: launchNote_ok launchNote_err)

text \<open>The turn of the add-pass for an asset and for a metadata file, written out.\<close>

lemma addStep_asset:
  assumes "filepath_Ext f \<noteq> ''.meta''"
  shows "addStep cfg e A AL f (t, a) =
     (if f @ ''.meta'' \<in> A \<or> strings_ToLower (f @ ''.meta'') \<in> AL then ((t, a), None)
      else (case depotAnswer cfg e (f @ ''.meta'') of
              (found, Some err) \<Rightarrow>
                ((\<lparr>stdout = stdout t @ launchNote cfg e (f @ ''.meta'')
                              @ [FstatFailed (f @ ''.meta'') err],
                   fstats = fstats t @ [f @ ''.meta'']\<rparr>, a), Some p4ExitErrorException)
            | (found, None) \<Rightarrow>
                if found then ((\<lparr>stdout = stdout t, fstats = fstats t @ [f @ ''.meta'']\<rparr>, a), None)
                else ((\<lparr>stdout = stdout t @ [MissingMeta f],
                        fstats = fstats t @ [f @ ''.meta'']\<rparr>, False), None)))"
  using assms
  by (simp add: addStep_def Let_def has_def fileExistsInDepot_eq emit_def launchNote_ok
           split: prod.splits option.splits)

lemma addStep_meta:
  assumes "filepath_Ext f = ''.meta''"
  shows "addStep cfg e A AL f (t, a) =
     (let b = take (length f - length ''.meta'') f in
      if strings_TrimSpace (filepath_Ext b) = [] \<or> b \<in> A \<or> strings_ToLower b \<in> AL
      then ((t, a), None)
      else (case depotAnswer cfg e b of
              (found, Some err) \<Rightarrow>
                ((\<lparr>stdout = stdout t @ launchNote cfg e b @ [FstatFailed b err],
                   fstats = fstats t @ [b]\<rparr>, a), Some p4ExitErrorException)
            | (found, None) \<Rightarrow>
                if found then ((\<lparr>stdout = stdout t, fstats = fstats t @ [b]\<rparr>, a), None)
                else ((\<lparr>stdout = stdout t @ [MissingAsset f], fstats = fstats t @ [b]\<rparr>, False),
                      None)))"
  using assms
  by (simp add: addStep_def Let_def has_def fileExistsInDepot_eq emit_def launchNote_ok
           split: prod.splits option.splits)

lemma delStep_asset:
  assumes "filepath_Ext f \<noteq> ''.meta''"
  shows "delStep cfg e D DL f (t, a) =
     (if f @ ''.meta'' \<in> D \<or> strings_ToLower (f @ ''.meta'') \<in> DL then ((t, a), None)
      else (case depotAnswer cfg e (f @ ''.meta'') of
              (found, Some err) \<Rightarrow>
                ((\<lparr>stdout = stdout t @ launchNote cfg e (f @ ''.meta'') @ [FstatFailed f err],
                   fstats = fstats t @ [f @ ''.meta'']\<rparr>, a), Some p4ExitErrorException)
            | (found, None) \<Rightarrow>
                if \<not> found then ((\<lparr>stdout = stdout t, fstats = fstats t @ [f @ ''.meta'']\<rparr>, a), None)
                else ((\<lparr>stdout = stdout t @ [OrphanedMeta f],
                        fstats = fstats t @ [f @ ''.meta'']\<rparr>, False), None)))"
  using assms
  by (simp add: delStep_def Let_def has_def fileExistsInDepot_eq emit_def launchNote_ok
           split: prod.splits option.splits)

lemma delStep_meta:
  assumes "filepath_Ext f = ''.meta''"
  shows "delStep cfg e D DL f tb = (tb, None)"
  using assms by (simp add: delStep_def Let_def split: prod.splits)

lemma addStep_framed: "framed (addStep cfg e A AL)"
  unfolding framed_def prints_def looks_def passes_def returns_def
proof (intro allI)
  fix k t a
  show "addStep cfg e A AL k (t, a) =
        ((\<lparr>stdout = stdout t @ stdout (fst (fst (addStep cfg e A AL k (nil, True)))),
            fstats = fstats t @ fstats (fst (fst (addStep cfg e A AL k (nil, True))))\<rparr>,
          a \<and> snd (fst (addStep cfg e A AL k (nil, True)))),
         snd (addStep cfg e A AL k (nil, True)))"
  proof (cases "filepath_Ext k = ''.meta''")
    case True
    show ?thesis
      by (simp add: addStep_meta [OF True] Let_def nil_def split: prod.splits option.splits)
  next
    case False
    show ?thesis
      by (simp add: addStep_asset [OF False] nil_def split: prod.splits option.splits)
  qed
qed

lemma delStep_framed: "framed (delStep cfg e D DL)"
  unfolding framed_def prints_def looks_def passes_def returns_def
proof (intro allI)
  fix k t a
  show "delStep cfg e D DL k (t, a) =
        ((\<lparr>stdout = stdout t @ stdout (fst (fst (delStep cfg e D DL k (nil, True)))),
            fstats = fstats t @ fstats (fst (fst (delStep cfg e D DL k (nil, True))))\<rparr>,
          a \<and> snd (fst (delStep cfg e D DL k (nil, True)))),
         snd (delStep cfg e D DL k (nil, True)))"
  proof (cases "filepath_Ext k = ''.meta''")
    case True
    show ?thesis
      by (simp add: delStep_meta [OF True] nil_def)
  next
    case False
    show ?thesis
      by (simp add: delStep_asset [OF False] nil_def split: prod.splits option.splits)
  qed
qed

subsection \<open>File extensions\<close>

lemma filepath_Ext_append_meta: "filepath_Ext (b @ ''.meta'') = ''.meta''"
  by (simp add: filepath_Ext_def)

lemma filepath_Ext_meta_suffix:
  assumes "filepath_Ext p = ''.meta''"
  shows "\<exists>b. p = b @ ''.meta''"
proof -
  define el where "el = takeWhile (\<lambda>c. c \<noteq> CHR ''/'') (rev p)"
  from assms have dot: "CHR ''.'' \<in> set el"
    and tw: "rev (takeWhile (\<lambda>c. c \<noteq> CHR ''.'') el) = ''meta''"
    by (auto simp: filepath_Ext_def el_def Let_def split: if_splits)
  from tw have tw': "takeWhile (\<lambda>c. c \<noteq> CHR ''.'') el = ''atem''"
    by (metis rev_rev_ident rev.simps(2) rev.simps(1) append_Nil append_Cons rev_swap)
  from dot have "el = takeWhile (\<lambda>c. c \<noteq> CHR ''.'') el @ dropWhile (\<lambda>c. c \<noteq> CHR ''.'') el"
    by simp
  moreover from dot have "dropWhile (\<lambda>c. c \<noteq> CHR ''.'') el \<noteq> []"
    by (simp add: dropWhile_eq_Nil_conv)
  then obtain r where "dropWhile (\<lambda>c. c \<noteq> CHR ''.'') el = CHR ''.'' # r"
    using hd_dropWhile [of "\<lambda>c. c \<noteq> CHR ''.''" el]
    by (cases "dropWhile (\<lambda>c. c \<noteq> CHR ''.'') el") auto
  ultimately have el: "el = ''atem.'' @ r" using tw' by simp
  have "rev p = el @ dropWhile (\<lambda>c. c \<noteq> CHR ''/'') (rev p)"
    by (simp add: el_def)
  with el have "rev p = ''atem.'' @ (r @ dropWhile (\<lambda>c. c \<noteq> CHR ''/'') (rev p))" by simp
  then have "p = rev (''atem.'' @ (r @ dropWhile (\<lambda>c. c \<noteq> CHR ''/'') (rev p)))"
    by (metis rev_rev_ident)
  then have "p = rev (r @ dropWhile (\<lambda>c. c \<noteq> CHR ''/'') (rev p)) @ ''.meta''"
    by simp
  then show ?thesis by blast
qed

lemma filepath_Ext_meta_iff: "filepath_Ext p = ''.meta'' \<longleftrightarrow> (\<exists>b. p = b @ ''.meta'')"
  using filepath_Ext_meta_suffix filepath_Ext_append_meta by blast

lemma filepath_Ext_dot: "filepath_Ext b \<noteq> [] \<Longrightarrow> hd (filepath_Ext b) = CHR ''.''"
  by (simp add: filepath_Ext_def Let_def split: if_splits)

text \<open>White space is cut from an extension only when there is no extension.\<close>

lemma DecodeRune_ascii:
  "of_char c < utf8_RuneSelf \<Longrightarrow> utf8_DecodeRuneInString (c # cs) = (of_char c, 1)"
  by (simp add: utf8_DecodeRuneInString_def)

lemma DecodeLastRune_cases:
  assumes "s \<noteq> []"
  obtains (ascii) "of_char (last s) < utf8_RuneSelf"
      and "utf8_DecodeLastRuneInString s = (of_char (last s), 1)"
    | (error) "utf8_DecodeLastRuneInString s = (utf8_RuneError, 1)"
    | (rune) start where "start < length s"
      and "utf8_DecodeLastRuneInString s = utf8_DecodeRuneInString (drop start s)"
      and "start + snd (utf8_DecodeLastRuneInString s) = length s"
proof -
  define start where
    "start = length s - 2 - length (takeWhile (\<lambda>c. \<not> utf8_RuneStart c) (take 3 (drop 1 (rev s))))"
  from assms have lt: "start < length s" unfolding start_def by (cases s) simp_all
  obtain r wid where d: "utf8_DecodeRuneInString (drop start s) = (r, wid)" by fastforce
  have eq: "utf8_DecodeLastRuneInString s =
          (if of_char (last s) < utf8_RuneSelf then (of_char (last s), 1)
           else if start + wid \<noteq> length s then (utf8_RuneError, 1) else (r, wid))"
    unfolding utf8_DecodeLastRuneInString_def Let_def start_def [symmetric] d using assms by simp
  show thesis
  proof (cases "of_char (last s) < utf8_RuneSelf")
    case True
    with eq show thesis by (intro ascii) simp_all
  next
    case False
    show thesis
    proof (cases "start + wid = length s")
      case True
      with False eq d lt show thesis by (intro rune [of start]) simp_all
    next
      case False
      with \<open>\<not> of_char (last s) < utf8_RuneSelf\<close> eq show thesis by (intro error) simp
    qed
  qed
qed

lemma lastIndexFunc_ascii_head:
  assumes "\<not> f (of_char c)" and "of_char c < utf8_RuneSelf"
  shows "\<exists>i. lastIndexFunc (c # cs) f = Some i"
proof (induction "length cs" arbitrary: cs rule: less_induct)
  case less
  obtain r wid where d: "utf8_DecodeLastRuneInString (c # cs) = (r, wid)" by fastforce
  show ?case
  proof (cases "f r")
    case False
    with d show ?thesis by simp
  next
    case True
    have ne: "c # cs \<noteq> []" by simp
    have "0 < wid \<and> wid < length (c # cs)"
    proof (rule DecodeLastRune_cases [OF ne])
      assume a: "utf8_DecodeLastRuneInString (c # cs) = (of_char (last (c # cs)), 1)"
      have "cs \<noteq> []"
      proof
        assume "cs = []"
        with a d have "r = of_char c" by simp
        with True assms(1) show False by simp
      qed
      with a d show ?thesis by simp
    next
      assume a: "utf8_DecodeLastRuneInString (c # cs) = (utf8_RuneError, 1)"
      have "cs \<noteq> []"
      proof
        assume "cs = []"
        with assms(2) have "utf8_DecodeLastRuneInString (c # cs) = (of_char c, 1)"
          by (simp add: utf8_DecodeLastRuneInString_def)
        with d True assms(1) show False by simp
      qed
      with a d show ?thesis by simp
    next
      fix start
      assume lt: "start < length (c # cs)"
        and a: "utf8_DecodeLastRuneInString (c # cs) = utf8_DecodeRuneInString (drop start (c # cs))"
        and e: "start + snd (utf8_DecodeLastRuneInString (c # cs)) = length (c # cs)"
      have "start \<noteq> 0"
      proof
        assume "start = 0"
        with a assms(2) have "utf8_DecodeLastRuneInString (c # cs) = (of_char c, 1)"
          by (simp add: DecodeRune_ascii)
        with d True assms(1) show False by simp
      qed
      with lt e d show ?thesis by auto
    qed
    then obtain n where n: "length (c # cs) - wid = Suc n" and "n < length cs"
      by (cases "length (c # cs) - wid") auto
    then have tk: "take (length (c # cs) - wid) (c # cs) = c # take n cs"
      and "length (take n cs) < length cs"
      by simp_all
    from less [OF this(2)] have "\<exists>i. lastIndexFunc (c # take n cs) f = Some i" .
    with True d tk show ?thesis by (simp add: Let_def)
  qed
qed

lemma TrimRightFunc_ascii_head:
  assumes "\<not> f (of_char c)" and "of_char c < utf8_RuneSelf"
  shows "strings_TrimRightFunc (c # cs) f \<noteq> []"
proof -
  from lastIndexFunc_ascii_head [where f = f and c = c, OF assms] obtain i where
    i: "lastIndexFunc (c # cs) f = Some i" by blast
  show ?thesis
  proof (cases i)
    case 0
    with i assms(2) show ?thesis by (simp add: strings_TrimRightFunc_def)
  next
    case (Suc j)
    with i show ?thesis by (simp add: strings_TrimRightFunc_def)
  qed
qed

lemma TrimSpace_Ext_Nil: "strings_TrimSpace (filepath_Ext b) = [] \<longleftrightarrow> filepath_Ext b = []"
proof
  assume "filepath_Ext b = []"
  then show "strings_TrimSpace (filepath_Ext b) = []" by (simp add: strings_TrimSpace_def)
next
  assume tr: "strings_TrimSpace (filepath_Ext b) = []"
  show "filepath_Ext b = []"
  proof (rule ccontr)
    assume ne: "filepath_Ext b \<noteq> []"
    then obtain r where x: "filepath_Ext b = CHR ''.'' # r"
      using filepath_Ext_dot [OF ne] by (cases "filepath_Ext b") auto
    have dot: "\<not> asciiSpace CHR ''.''" "of_char CHR ''.'' < utf8_RuneSelf"
      "\<not> unicode_IsSpace (of_char CHR ''.'')"
      by (simp_all add: asciiSpace_def utf8_RuneSelf_def unicode_IsSpace_def)
    from dot(1) have s1: "dropWhile asciiSpace (CHR ''.'' # r) = CHR ''.'' # r" by simp
    have "rev (dropWhile asciiSpace (rev r @ ''.''))
            = CHR ''.'' # rev (dropWhile asciiSpace (rev r))
        \<or> rev (dropWhile asciiSpace (rev r @ ''.'')) = ''.''"
      using dot(1) by (simp add: dropWhile_append)
    then have "\<exists>r'. rev (dropWhile asciiSpace (rev (CHR ''.'' # r))) = CHR ''.'' # r'"
      by (elim disjE) simp_all
    then obtain r' where s2: "rev (dropWhile asciiSpace (rev (CHR ''.'' # r))) = CHR ''.'' # r'"
      by blast
    from TrimRightFunc_ascii_head [where f = unicode_IsSpace and c = "CHR ''.''", OF dot(3,2)]
    have tr': "strings_TrimRightFunc (CHR ''.'' # r') unicode_IsSpace \<noteq> []" .
    have "strings_TrimSpace (CHR ''.'' # r) =
            (if of_char (last (CHR ''.'' # r')) \<ge> utf8_RuneSelf
             then strings_TrimRightFunc (CHR ''.'' # r') unicode_IsSpace else CHR ''.'' # r')"
      unfolding strings_TrimSpace_def Let_def s1 s2 using dot(2) by (simp del: last.simps)
    with tr' have "strings_TrimSpace (CHR ''.'' # r) \<noteq> []"
      by (cases "of_char (last (CHR ''.'' # r')) \<ge> utf8_RuneSelf") (simp_all del: last.simps)
    with tr x show False by simp
  qed
qed

subsection \<open>What one turn of a pass prints, looks up and returns\<close>

lemma nil_simps [simp]: "stdout nil = []" "fstats nil = []"
  by (simp_all add: nil_def)

lemma addTurn_asset:
  assumes "filepath_Ext f \<noteq> ''.meta''"
  shows "(prints (addStep cfg e A AL) f, looks (addStep cfg e A AL) f,
          passes (addStep cfg e A AL) f, returns (addStep cfg e A AL) f) =
     (if f @ ''.meta'' \<in> A \<or> strings_ToLower (f @ ''.meta'') \<in> AL then ([], [], True, None)
      else (case depotAnswer cfg e (f @ ''.meta'') of
              (found, Some err) \<Rightarrow>
                (launchNote cfg e (f @ ''.meta'') @ [FstatFailed (f @ ''.meta'') err],
                 [f @ ''.meta''], True, Some p4ExitErrorException)
            | (found, None) \<Rightarrow>
                if found then ([], [f @ ''.meta''], True, None)
                else ([MissingMeta f], [f @ ''.meta''], False, None)))"
  by (simp add: prints_def looks_def passes_def returns_def addStep_asset [OF assms]
           split: prod.splits option.splits)

lemma addTurn_meta:
  assumes "filepath_Ext f = ''.meta''"
  shows "(prints (addStep cfg e A AL) f, looks (addStep cfg e A AL) f,
          passes (addStep cfg e A AL) f, returns (addStep cfg e A AL) f) =
     (let b = take (length f - length ''.meta'') f in
      if filepath_Ext b = [] \<or> b \<in> A \<or> strings_ToLower b \<in> AL then ([], [], True, None)
      else (case depotAnswer cfg e b of
              (found, Some err) \<Rightarrow>
                (launchNote cfg e b @ [FstatFailed b err], [b], True, Some p4ExitErrorException)
            | (found, None) \<Rightarrow>
                if found then ([], [b], True, None)
                else ([MissingAsset f], [b], False, None)))"
  by (simp add: prints_def looks_def passes_def returns_def addStep_meta [OF assms] Let_def
           TrimSpace_Ext_Nil split: prod.splits option.splits)

lemma delTurn_asset:
  assumes "filepath_Ext f \<noteq> ''.meta''"
  shows "(prints (delStep cfg e D DL) f, looks (delStep cfg e D DL) f,
          passes (delStep cfg e D DL) f, returns (delStep cfg e D DL) f) =
     (if f @ ''.meta'' \<in> D \<or> strings_ToLower (f @ ''.meta'') \<in> DL then ([], [], True, None)
      else (case depotAnswer cfg e (f @ ''.meta'') of
              (found, Some err) \<Rightarrow>
                (launchNote cfg e (f @ ''.meta'') @ [FstatFailed f err],
                 [f @ ''.meta''], True, Some p4ExitErrorException)
            | (found, None) \<Rightarrow>
                if \<not> found then ([], [f @ ''.meta''], True, None)
                else ([OrphanedMeta f], [f @ ''.meta''], False, None)))"
  by (simp add: prints_def looks_def passes_def returns_def delStep_asset [OF assms]
           split: prod.splits option.splits)

lemma delTurn_meta:
  assumes "filepath_Ext f = ''.meta''"
  shows "(prints (delStep cfg e D DL) f, looks (delStep cfg e D DL) f,
          passes (delStep cfg e D DL) f, returns (delStep cfg e D DL) f) = ([], [], True, None)"
  by (simp add: prints_def looks_def passes_def returns_def delStep_meta [OF assms])

lemma launchNote_mem: "ln \<in> set (launchNote cfg e x) \<Longrightarrow> \<exists>err out. ln = LaunchFailed err out"
  using launchNote_cases [of cfg e x] by auto

lemma add_MissingMeta_iff:
  "MissingMeta p \<in> set (prints (addStep cfg e A AL) f) \<longleftrightarrow>
     f = p \<and> filepath_Ext p \<noteq> ''.meta'' \<and> p @ ''.meta'' \<notin> A
     \<and> strings_ToLower (p @ ''.meta'') \<notin> AL
     \<and> depotAnswer cfg e (p @ ''.meta'') = (False, None)"
proof (cases "filepath_Ext f = ''.meta''")
  case True
  from addTurn_meta [OF True, of cfg e A AL] show ?thesis
    using True
    by (auto simp: Let_def split: if_splits prod.splits option.splits dest: launchNote_mem)
next
  case False
  from addTurn_asset [OF False, of cfg e A AL] show ?thesis
    using False
    by (auto split: if_splits prod.splits option.splits dest: launchNote_mem)
qed

lemma add_MissingAsset_iff:
  "MissingAsset p \<in> set (prints (addStep cfg e A AL) f) \<longleftrightarrow>
     f = p \<and> filepath_Ext p = ''.meta''
     \<and> filepath_Ext (take (length p - length ''.meta'') p) \<noteq> []
     \<and> take (length p - length ''.meta'') p \<notin> A
     \<and> strings_ToLower (take (length p - length ''.meta'') p) \<notin> AL
     \<and> depotAnswer cfg e (take (length p - length ''.meta'') p) = (False, None)"
proof (cases "filepath_Ext f = ''.meta''")
  case True
  from addTurn_meta [OF True, of cfg e A AL] show ?thesis
    using True
    by (auto simp: Let_def split: if_splits prod.splits option.splits dest: launchNote_mem)
next
  case False
  from addTurn_asset [OF False, of cfg e A AL] show ?thesis
    using False
    by (auto split: if_splits prod.splits option.splits dest: launchNote_mem)
qed

lemma add_looks_iff:
  "x \<in> set (looks (addStep cfg e A AL) f) \<longleftrightarrow>
     x \<notin> A \<and> strings_ToLower x \<notin> AL \<and>
     (filepath_Ext f \<noteq> ''.meta'' \<and> x = f @ ''.meta''
      \<or> filepath_Ext f = ''.meta'' \<and> x = take (length f - length ''.meta'') f
         \<and> filepath_Ext x \<noteq> [])"
proof (cases "filepath_Ext f = ''.meta''")
  case True
  from addTurn_meta [OF True, of cfg e A AL] show ?thesis
    using True
    by (auto simp: Let_def split: if_splits prod.splits option.splits)
next
  case False
  from addTurn_asset [OF False, of cfg e A AL] show ?thesis
    using False
    by (auto split: if_splits prod.splits option.splits)
qed

lemma del_OrphanedMeta_iff:
  "OrphanedMeta p \<in> set (prints (delStep cfg e D DL) f) \<longleftrightarrow>
     f = p \<and> filepath_Ext p \<noteq> ''.meta'' \<and> p @ ''.meta'' \<notin> D
     \<and> strings_ToLower (p @ ''.meta'') \<notin> DL
     \<and> depotAnswer cfg e (p @ ''.meta'') = (True, None)"
proof (cases "filepath_Ext f = ''.meta''")
  case True
  from delTurn_meta [OF True, of cfg e D DL] show ?thesis
    using True by auto
next
  case False
  from delTurn_asset [OF False, of cfg e D DL] show ?thesis
    using False
    by (auto split: if_splits prod.splits option.splits dest: launchNote_mem)
qed

lemma del_looks_iff:
  "x \<in> set (looks (delStep cfg e D DL) f) \<longleftrightarrow>
     x \<notin> D \<and> strings_ToLower x \<notin> DL \<and> filepath_Ext f \<noteq> ''.meta'' \<and> x = f @ ''.meta''"
proof (cases "filepath_Ext f = ''.meta''")
  case True
  from delTurn_meta [OF True, of cfg e D DL] show ?thesis
    using True by auto
next
  case False
  from delTurn_asset [OF False, of cfg e D DL] show ?thesis
    using False
    by (auto split: if_splits prod.splits option.splits)
qed

lemma turnShape_case:
  assumes eq: "(prints B k, looks B k, passes B k, returns B k) =
     (if skip then ([], [], True, None)
      else (case depotAnswer cfg e x of
              (found, Some err) \<Rightarrow>
                (launchNote cfg e x @ [FstatFailed q err], [x], True, Some p4ExitErrorException)
            | (found, None) \<Rightarrow>
                if found = good then ([], [x], True, None) else ([v], [x], False, None)))"
    and v: "violation v"
  shows "(looks B k = [] \<and> prints B k = [] \<and> passes B k \<and> returns B k = None)
        \<or> (\<exists>x. looks B k = [x] \<and>
              (case snd (depotAnswer cfg e x) of
                 Some err \<Rightarrow> returns B k = Some p4ExitErrorException \<and> passes B k \<and>
                    (\<exists>q note. prints B k = note @ [FstatFailed q err] \<and>
                        (\<forall>ln\<in>set note. \<exists>er out. ln = LaunchFailed er out))
               | None \<Rightarrow> returns B k = None \<and>
                    (prints B k = [] \<and> passes B k
                     \<or> (\<exists>ln. prints B k = [ln] \<and> violation ln \<and> \<not> passes B k))))"
proof (cases skip)
  case True
  with eq show ?thesis by simp
next
  case False
  obtain found erropt where ans: "depotAnswer cfg e x = (found, erropt)"
    by (cases "depotAnswer cfg e x")
  show ?thesis
  proof (cases erropt)
    case None
    with eq False ans have "looks B k = [x]" "returns B k = None"
      "(prints B k = [] \<and> passes B k) \<or> (prints B k = [v] \<and> \<not> passes B k)"
      by (auto split: if_splits)
    with v ans None have "looks B k = [x] \<and>
              (case snd (depotAnswer cfg e x) of
                 Some err \<Rightarrow> returns B k = Some p4ExitErrorException \<and> passes B k \<and>
                    (\<exists>q note. prints B k = note @ [FstatFailed q err] \<and>
                        (\<forall>ln\<in>set note. \<exists>er out. ln = LaunchFailed er out))
               | None \<Rightarrow> returns B k = None \<and>
                    (prints B k = [] \<and> passes B k
                     \<or> (\<exists>ln. prints B k = [ln] \<and> violation ln \<and> \<not> passes B k)))"
      by auto
    then show ?thesis by blast
  next
    case (Some err)
    with eq False ans have "looks B k = [x]" "returns B k = Some p4ExitErrorException"
      "passes B k" "prints B k = launchNote cfg e x @ [FstatFailed q err]"
      by auto
    moreover have "\<forall>ln\<in>set (launchNote cfg e x). \<exists>er out. ln = LaunchFailed er out"
      using launchNote_mem by blast
    ultimately have "looks B k = [x] \<and>
              (case snd (depotAnswer cfg e x) of
                 Some err \<Rightarrow> returns B k = Some p4ExitErrorException \<and> passes B k \<and>
                    (\<exists>q note. prints B k = note @ [FstatFailed q err] \<and>
                        (\<forall>ln\<in>set note. \<exists>er out. ln = LaunchFailed er out))
               | None \<Rightarrow> returns B k = None \<and>
                    (prints B k = [] \<and> passes B k
                     \<or> (\<exists>ln. prints B k = [ln] \<and> violation ln \<and> \<not> passes B k)))"
      using ans Some by auto
    then show ?thesis by blast
  qed
qed

lemma addStep_turnShape: "turnShape cfg e (addStep cfg e A AL)"
  unfolding turnShape_def
proof
  fix k
  show "(looks (addStep cfg e A AL) k = [] \<and> prints (addStep cfg e A AL) k = []
         \<and> passes (addStep cfg e A AL) k \<and> returns (addStep cfg e A AL) k = None)
        \<or> (\<exists>x. looks (addStep cfg e A AL) k = [x] \<and>
              (case snd (depotAnswer cfg e x) of
                 Some err \<Rightarrow> returns (addStep cfg e A AL) k = Some p4ExitErrorException
                    \<and> passes (addStep cfg e A AL) k \<and>
                    (\<exists>q note. prints (addStep cfg e A AL) k = note @ [FstatFailed q err] \<and>
                        (\<forall>ln\<in>set note. \<exists>er out. ln = LaunchFailed er out))
               | None \<Rightarrow> returns (addStep cfg e A AL) k = None \<and>
                    (prints (addStep cfg e A AL) k = [] \<and> passes (addStep cfg e A AL) k
                     \<or> (\<exists>ln. prints (addStep cfg e A AL) k = [ln] \<and> violation ln
                           \<and> \<not> passes (addStep cfg e A AL) k))))"
  proof (cases "filepath_Ext k = ''.meta''")
    case True
    define b where "b = take (length k - length ''.meta'') k"
    have "(prints (addStep cfg e A AL) k, looks (addStep cfg e A AL) k,
           passes (addStep cfg e A AL) k, returns (addStep cfg e A AL) k) =
       (if filepath_Ext b = [] \<or> b \<in> A \<or> strings_ToLower b \<in> AL then ([], [], True, None)
        else (case depotAnswer cfg e b of
                (found, Some err) \<Rightarrow>
                  (launchNote cfg e b @ [FstatFailed b err], [b], True, Some p4ExitErrorException)
              | (found, None) \<Rightarrow>
                  if found = True then ([], [b], True, None)
                  else ([MissingAsset k], [b], False, None)))"
      using addTurn_meta [OF True, of cfg e A AL]
      by (simp add: Let_def b_def split: prod.splits option.splits)
    from turnShape_case [OF this] show ?thesis by (simp add: violation_def)
  next
    case False
    have "(prints (addStep cfg e A AL) k, looks (addStep cfg e A AL) k,
           passes (addStep cfg e A AL) k, returns (addStep cfg e A AL) k) =
       (if k @ ''.meta'' \<in> A \<or> strings_ToLower (k @ ''.meta'') \<in> AL then ([], [], True, None)
        else (case depotAnswer cfg e (k @ ''.meta'') of
                (found, Some err) \<Rightarrow>
                  (launchNote cfg e (k @ ''.meta'') @ [FstatFailed (k @ ''.meta'') err],
                   [k @ ''.meta''], True, Some p4ExitErrorException)
              | (found, None) \<Rightarrow>
                  if found = True then ([], [k @ ''.meta''], True, None)
                  else ([MissingMeta k], [k @ ''.meta''], False, None)))"
      using addTurn_asset [OF False, of cfg e A AL]
      by (simp split: prod.splits option.splits)
    from turnShape_case [OF this] show ?thesis by (simp add: violation_def)
  qed
qed

lemma delStep_turnShape: "turnShape cfg e (delStep cfg e D DL)"
  unfolding turnShape_def
proof
  fix k
  show "(looks (delStep cfg e D DL) k = [] \<and> prints (delStep cfg e D DL) k = []
         \<and> passes (delStep cfg e D DL) k \<and> returns (delStep cfg e D DL) k = None)
        \<or> (\<exists>x. looks (delStep cfg e D DL) k = [x] \<and>
              (case snd (depotAnswer cfg e x) of
                 Some err \<Rightarrow> returns (delStep cfg e D DL) k = Some p4ExitErrorException
                    \<and> passes (delStep cfg e D DL) k \<and>
                    (\<exists>q note. prints (delStep cfg e D DL) k = note @ [FstatFailed q err] \<and>
                        (\<forall>ln\<in>set note. \<exists>er out. ln = LaunchFailed er out))
               | None \<Rightarrow> returns (delStep cfg e D DL) k = None \<and>
                    (prints (delStep cfg e D DL) k = [] \<and> passes (delStep cfg e D DL) k
                     \<or> (\<exists>ln. prints (delStep cfg e D DL) k = [ln] \<and> violation ln
                           \<and> \<not> passes (delStep cfg e D DL) k))))"
  proof (cases "filepath_Ext k = ''.meta''")
    case True
    show ?thesis
      by (simp add: delTurn_meta [OF True, simplified])
  next
    case False
    have "(prints (delStep cfg e D DL) k, looks (delStep cfg e D DL) k,
           passes (delStep cfg e D DL) k, returns (delStep cfg e D DL) k) =
       (if k @ ''.meta'' \<in> D \<or> strings_ToLower (k @ ''.meta'') \<in> DL then ([], [], True, None)
        else (case depotAnswer cfg e (k @ ''.meta'') of
                (found, Some err) \<Rightarrow>
                  (launchNote cfg e (k @ ''.meta'') @ [FstatFailed k err],
                   [k @ ''.meta''], True, Some p4ExitErrorException)
              | (found, None) \<Rightarrow>
                  if found = False then ([], [k @ ''.meta''], True, None)
                  else ([OrphanedMeta k], [k @ ''.meta''], False, None)))"
      using delTurn_asset [OF False, of cfg e D DL]
      by (simp split: prod.splits option.splits)
    from turnShape_case [OF this] show ?thesis by (simp add: violation_def)
  qed
qed

subsection \<open>A whole pass\<close>

lemma turnShape_returns_exception:
  assumes "turnShape cfg e body" and "returns body k = Some c"
  shows "c = p4ExitErrorException \<and>
         (\<exists>x err q note. looks body k = [x] \<and> snd (depotAnswer cfg e x) = Some err
            \<and> prints body k = note @ [FstatFailed q err]
            \<and> (\<forall>ln\<in>set note. \<exists>er out. ln = LaunchFailed er out))"
proof -
  from assms(1) have
    "(looks body k = [] \<and> prints body k = [] \<and> passes body k \<and> returns body k = None)
        \<or> (\<exists>x. looks body k = [x] \<and>
              (case snd (depotAnswer cfg e x) of
                 Some err \<Rightarrow> returns body k = Some p4ExitErrorException \<and> passes body k \<and>
                    (\<exists>q note. prints body k = note @ [FstatFailed q err] \<and>
                        (\<forall>ln\<in>set note. \<exists>er out. ln = LaunchFailed er out))
               | None \<Rightarrow> returns body k = None \<and>
                    (prints body k = [] \<and> passes body k
                     \<or> (\<exists>ln. prints body k = [ln] \<and> violation ln \<and> \<not> passes body k))))"
    unfolding turnShape_def by blast
  with assms(2) obtain x where x: "looks body k = [x]"
    and c: "(case snd (depotAnswer cfg e x) of
                 Some err \<Rightarrow> returns body k = Some p4ExitErrorException \<and> passes body k \<and>
                    (\<exists>q note. prints body k = note @ [FstatFailed q err] \<and>
                        (\<forall>ln\<in>set note. \<exists>er out. ln = LaunchFailed er out))
               | None \<Rightarrow> returns body k = None \<and>
                    (prints body k = [] \<and> passes body k
                     \<or> (\<exists>ln. prints body k = [ln] \<and> violation ln \<and> \<not> passes body k)))"
    by auto
  from c assms(2) obtain err where err: "snd (depotAnswer cfg e x) = Some err"
    by (cases "snd (depotAnswer cfg e x)") auto
  with c assms(2) x show ?thesis by auto
qed

lemma turnShape_completes:
  assumes "turnShape cfg e body" and "returns body k = None"
  shows "(\<forall>x\<in>set (looks body k). snd (depotAnswer cfg e x) = None)
         \<and> (\<forall>ln\<in>set (prints body k). violation ln)
         \<and> (passes body k \<longleftrightarrow> prints body k = [])"
proof -
  from assms(1) have
    "(looks body k = [] \<and> prints body k = [] \<and> passes body k \<and> returns body k = None)
        \<or> (\<exists>x. looks body k = [x] \<and>
              (case snd (depotAnswer cfg e x) of
                 Some err \<Rightarrow> returns body k = Some p4ExitErrorException \<and> passes body k \<and>
                    (\<exists>q note. prints body k = note @ [FstatFailed q err] \<and>
                        (\<forall>ln\<in>set note. \<exists>er out. ln = LaunchFailed er out))
               | None \<Rightarrow> returns body k = None \<and>
                    (prints body k = [] \<and> passes body k
                     \<or> (\<exists>ln. prints body k = [ln] \<and> violation ln \<and> \<not> passes body k))))"
    unfolding turnShape_def by blast
  then show ?thesis
  proof
    assume "looks body k = [] \<and> prints body k = [] \<and> passes body k \<and> returns body k = None"
    then show ?thesis by simp
  next
    assume "\<exists>x. looks body k = [x] \<and>
              (case snd (depotAnswer cfg e x) of
                 Some err \<Rightarrow> returns body k = Some p4ExitErrorException \<and> passes body k \<and>
                    (\<exists>q note. prints body k = note @ [FstatFailed q err] \<and>
                        (\<forall>ln\<in>set note. \<exists>er out. ln = LaunchFailed er out))
               | None \<Rightarrow> returns body k = None \<and>
                    (prints body k = [] \<and> passes body k
                     \<or> (\<exists>ln. prints body k = [ln] \<and> violation ln \<and> \<not> passes body k)))"
    then obtain x where x: "looks body k = [x]"
      and c: "(case snd (depotAnswer cfg e x) of
                 Some err \<Rightarrow> returns body k = Some p4ExitErrorException \<and> passes body k \<and>
                    (\<exists>q note. prints body k = note @ [FstatFailed q err] \<and>
                        (\<forall>ln\<in>set note. \<exists>er out. ln = LaunchFailed er out))
               | None \<Rightarrow> returns body k = None \<and>
                    (prints body k = [] \<and> passes body k
                     \<or> (\<exists>ln. prints body k = [ln] \<and> violation ln \<and> \<not> passes body k)))"
      by blast
    from c assms(2) have n: "snd (depotAnswer cfg e x) = None"
      by (cases "snd (depotAnswer cfg e x)") auto
    with c x show ?thesis by auto
  qed
qed

text \<open>A pass that ran to its end.\<close>

lemma pass_completes:
  assumes fr: "framed body" and sh: "turnShape cfg e body"
    and run: "rangeLoop body ks (t, a) = ((t', a'), None)"
  shows "stdout t' = stdout t @ concat (map (prints body) ks)"
    and "fstats t' = fstats t @ concat (map (looks body) ks)"
    and "a' \<longleftrightarrow> a \<and> (\<forall>k\<in>set ks. passes body k)"
    and "\<forall>k\<in>set ks. returns body k = None"
proof -
  have all: "\<forall>k\<in>set ks. returns body k = None"
  proof (rule ccontr)
    assume "\<not> (\<forall>k\<in>set ks. returns body k = None)"
    with range_cases [of ks body] obtain pre k post c where
      "ks = pre @ k # post" "\<forall>j\<in>set pre. returns body j = None" "returns body k = Some c"
      by blast
    with rangeLoop_returns [OF fr, of pre k c post t a] run show False by simp
  qed
  from rangeLoop_completes [OF fr all, of t a] run
  show "stdout t' = stdout t @ concat (map (prints body) ks)"
    and "fstats t' = fstats t @ concat (map (looks body) ks)"
    and "a' \<longleftrightarrow> a \<and> (\<forall>k\<in>set ks. passes body k)"
    by auto
  from all show "\<forall>k\<in>set ks. returns body k = None" .
qed

text \<open>A pass that returned from the program.\<close>

lemma pass_returns:
  assumes fr: "framed body" and sh: "turnShape cfg e body"
    and run: "rangeLoop body ks (t, a) = ((t', a'), Some c)"
  shows "\<exists>pre k post x err q note.
           ks = pre @ k # post \<and> (\<forall>j\<in>set pre. returns body j = None)
           \<and> c = p4ExitErrorException
           \<and> looks body k = [x] \<and> snd (depotAnswer cfg e x) = Some err
           \<and> stdout t' = stdout t @ concat (map (prints body) pre) @ note @ [FstatFailed q err]
           \<and> (\<forall>ln\<in>set note. \<exists>er out. ln = LaunchFailed er out)
           \<and> fstats t' = fstats t @ concat (map (looks body) pre) @ [x]"
proof -
  have "\<not> (\<forall>k\<in>set ks. returns body k = None)"
  proof
    assume "\<forall>k\<in>set ks. returns body k = None"
    from rangeLoop_completes [OF fr this, of t a] run show False by simp
  qed
  with range_cases [of ks body] obtain pre k post c' where
    ks: "ks = pre @ k # post" and pre: "\<forall>j\<in>set pre. returns body j = None"
    and k: "returns body k = Some c'"
    by blast
  from rangeLoop_returns [OF fr pre k, of post t a] run ks
  have c: "c' = c" and out: "stdout t' = stdout t @ concat (map (prints body) pre) @ prints body k"
    and lk: "fstats t' = fstats t @ concat (map (looks body) pre) @ looks body k"
    by auto
  from turnShape_returns_exception [OF sh k] obtain x err q nt where
    "c' = p4ExitErrorException" "looks body k = [x]" "snd (depotAnswer cfg e x) = Some err"
    "prints body k = nt @ [FstatFailed q err]"
    "\<forall>ln\<in>set nt. \<exists>er out. ln = LaunchFailed er out"
    by blast
  with ks pre c out lk have
    "ks = pre @ k # post \<and> (\<forall>j\<in>set pre. returns body j = None)
           \<and> c = p4ExitErrorException
           \<and> looks body k = [x] \<and> snd (depotAnswer cfg e x) = Some err
           \<and> stdout t' = stdout t @ concat (map (prints body) pre) @ nt @ [FstatFailed q err]
           \<and> (\<forall>ln\<in>set nt. \<exists>er out. ln = LaunchFailed er out)
           \<and> fstats t' = fstats t @ concat (map (looks body) pre) @ [x]"
    by simp
  then show ?thesis
    by (intro exI [of _ pre] exI [of _ k] exI [of _ post] exI [of _ x] exI [of _ err]
          exI [of _ q] exI [of _ nt])
qed

lemma pass_completes_iff:
  assumes fr: "framed body" and sh: "turnShape cfg e body"
    and run: "rangeLoop body ks (t, a) = ((t', a'), r)"
  shows "r = None \<longleftrightarrow> (\<forall>k\<in>set ks. returns body k = None)"
proof
  assume "r = None"
  with pass_completes(4) [OF fr sh] run show "\<forall>k\<in>set ks. returns body k = None" by blast
next
  assume "\<forall>k\<in>set ks. returns body k = None"
  from rangeLoop_completes [OF fr this, of t a] run show "r = None" by simp
qed

text \<open>Whatever a pass printed or looked up, one of its turns printed or looked up.\<close>

lemma pass_trace:
  assumes fr: "framed body" and sh: "turnShape cfg e body"
    and run: "rangeLoop body ks (t, a) = ((t', a'), r)"
  shows "\<exists>ks'. set ks' \<subseteq> set ks
           \<and> stdout t' = stdout t @ concat (map (prints body) ks')
           \<and> fstats t' = fstats t @ concat (map (looks body) ks')"
proof (cases r)
  case None
  with pass_completes(1,2) [OF fr sh] run show ?thesis by blast
next
  case (Some c)
  have "\<not> (\<forall>k\<in>set ks. returns body k = None)"
    using pass_completes_iff [OF fr sh run] Some by simp
  with range_cases [of ks body] obtain pre k post c' where
    ks: "ks = pre @ k # post" and pre: "\<forall>j\<in>set pre. returns body j = None"
    and k: "returns body k = Some c'"
    by blast
  from rangeLoop_returns [OF fr pre k, of post t a] run ks
  have "stdout t' = stdout t @ concat (map (prints body) (pre @ [k]))"
    and "fstats t' = fstats t @ concat (map (looks body) (pre @ [k]))"
    by auto
  moreover from ks have "set (pre @ [k]) \<subseteq> set ks" by auto
  ultimately show ?thesis by blast
qed

lemma emitted_append: "stdout t' = stdout t @ xs \<Longrightarrow> emitted t t' = xs"
  by (simp add: emitted_def)

lemma lookedUp_append: "fstats t' = fstats t @ xs \<Longrightarrow> lookedUp t t' = xs"
  by (simp add: lookedUp_def)

subsection \<open>The add-pass and the delete-pass (C2 to C5)\<close>

lemma not_suffix_Ext: "\<not> suffix ''.meta'' p \<longleftrightarrow> filepath_Ext p \<noteq> ''.meta''"
  by (simp add: filepath_Ext_meta_iff suffix_def)

text \<open>A depot whose \<^verbatim>\<open>p4 fstat\<close> runs for a path answers the look-up of the path.\<close>

lemma depot_answers:
  assumes "snd (fstat q) = None"
  shows "snd (depotAnswer cfg (depot ls fstat order) q) = None"
proof -
  obtain out where "fstat q = (out, None)" using assms by (cases "fstat q") auto
  then show ?thesis
    by (simp add: depotAnswer_def fileExistsInDepot_def depot_def Let_def)
qed

text \<open>A pass in which the depot answered every look-up ran to its end.\<close>

lemma pass_answered:
  assumes fr: "framed body" and sh: "turnShape cfg e body"
    and run: "rangeLoop body ks (t, a) = ((t', a'), r)"
    and ans: "\<forall>q\<in>set (lookedUp t t'). snd (depotAnswer cfg e q) = None"
  shows "r = None"
proof (cases r)
  case None
  then show ?thesis .
next
  case (Some c)
  with run have "rangeLoop body ks (t, a) = ((t', a'), Some c)" by simp
  from pass_returns [OF fr sh this] obtain pre x err where
    x: "snd (depotAnswer cfg e x) = Some err"
    and lk: "fstats t' = fstats t @ concat (map (looks body) pre) @ [x]"
    by blast
  from lk have "lookedUp t t' = concat (map (looks body) pre) @ [x]" by (rule lookedUp_append)
  then have "x \<in> set (lookedUp t t')" by simp
  with ans x show ?thesis by auto
qed

text \<open>
  \<^bold>\<open>C2\<close> (pairing completeness of the add-pass). Let \<open>p\<close> be a path of the added set
  that does not end in \<^verbatim>\<open>.meta\<close>, and let the loop visit the set in any order. Whenever
  the loop prints the violation \<^verbatim>\<open>Missing .meta file for 'p'\<close>, the path \<open>p.meta\<close> is
  not in the added set, its lower-cased form is not in the lower-cased set, and the depot
  answered that \<open>p.meta\<close> is absent. Whenever the depot answered every look-up the loop
  made (none of them failed), the loop runs to its end and prints that violation exactly
  under these three conditions; so it does for a depot that answers every path. A
  changelist that adds \<^verbatim>\<open>Foo.PNG\<close> and
  \<^verbatim>\<open>foo.png.meta\<close> is a pairing: nothing is printed and nothing is looked up.
\<close>

theorem add_pass_missing_meta:
  assumes "set order = added" and "p \<in> added" and "\<not> suffix ''.meta'' p"
    and "addLoop cfg e added addedIgnoringCase order (t, allow) = ((t', allow'), r)"
  shows "(MissingMeta p \<in> set (emitted t t') \<longrightarrow>
            p @ ''.meta'' \<notin> added \<and> strings_ToLower (p @ ''.meta'') \<notin> addedIgnoringCase
            \<and> depotAnswer cfg e (p @ ''.meta'') = (False, None))
       \<and> ((\<forall>q\<in>set (lookedUp t t'). snd (depotAnswer cfg e q) = None) \<longrightarrow>
            r = None
            \<and> (MissingMeta p \<in> set (emitted t t') \<longleftrightarrow>
                 p @ ''.meta'' \<notin> added \<and> strings_ToLower (p @ ''.meta'') \<notin> addedIgnoringCase
                 \<and> depotAnswer cfg e (p @ ''.meta'') = (False, None)))
       \<and> ((\<forall>q. snd (depotAnswer cfg e q) = None) \<longrightarrow>
            r = None
            \<and> (MissingMeta p \<in> set (emitted t t') \<longleftrightarrow>
                 p @ ''.meta'' \<notin> added \<and> strings_ToLower (p @ ''.meta'') \<notin> addedIgnoringCase
                 \<and> depotAnswer cfg e (p @ ''.meta'') = (False, None)))"
proof -
  let ?B = "addStep cfg e added addedIgnoringCase"
  from assms(4) have run: "rangeLoop ?B order (t, allow) = ((t', allow'), r)"
    by (simp add: addLoop_def)
  from assms(3) have ext: "filepath_Ext p \<noteq> ''.meta''" by (simp add: not_suffix_Ext)
  from pass_trace [OF addStep_framed addStep_turnShape run] obtain ks where
    "stdout t' = stdout t @ concat (map (prints ?B) ks)" by blast
  then have "emitted t t' = concat (map (prints ?B) ks)" by (rule emitted_append)
  then have sound: "MissingMeta p \<in> set (emitted t t') \<longrightarrow>
            p @ ''.meta'' \<notin> added \<and> strings_ToLower (p @ ''.meta'') \<notin> addedIgnoringCase
            \<and> depotAnswer cfg e (p @ ''.meta'') = (False, None)"
    by (auto simp: add_MissingMeta_iff)
  have "r = None
        \<and> (MissingMeta p \<in> set (emitted t t') \<longleftrightarrow>
               p @ ''.meta'' \<notin> added \<and> strings_ToLower (p @ ''.meta'') \<notin> addedIgnoringCase
               \<and> depotAnswer cfg e (p @ ''.meta'') = (False, None))"
    if ans: "\<forall>q\<in>set (lookedUp t t'). snd (depotAnswer cfg e q) = None"
  proof -
    from pass_answered [OF addStep_framed addStep_turnShape run ans] have r: "r = None" .
    with run have "rangeLoop ?B order (t, allow) = ((t', allow'), None)" by simp
    from pass_completes(1) [OF addStep_framed addStep_turnShape this]
    have "emitted t t' = concat (map (prints ?B) order)" by (rule emitted_append)
    then have "MissingMeta p \<in> set (emitted t t') \<longleftrightarrow>
        (\<exists>f\<in>set order. MissingMeta p \<in> set (prints ?B f))"
      by auto
    also have "\<dots> \<longleftrightarrow> p \<in> set order \<and> filepath_Ext p \<noteq> ''.meta'' \<and> p @ ''.meta'' \<notin> added
        \<and> strings_ToLower (p @ ''.meta'') \<notin> addedIgnoringCase
        \<and> depotAnswer cfg e (p @ ''.meta'') = (False, None)"
      by (auto simp: add_MissingMeta_iff)
    finally show ?thesis using assms(1,2) ext r by simp
  qed
  then have full: "(\<forall>q\<in>set (lookedUp t t'). snd (depotAnswer cfg e q) = None) \<longrightarrow>
        r = None
        \<and> (MissingMeta p \<in> set (emitted t t') \<longleftrightarrow>
               p @ ''.meta'' \<notin> added \<and> strings_ToLower (p @ ''.meta'') \<notin> addedIgnoringCase
               \<and> depotAnswer cfg e (p @ ''.meta'') = (False, None))"
    by blast
  then have "(\<forall>q. snd (depotAnswer cfg e q) = None) \<longrightarrow>
        r = None
        \<and> (MissingMeta p \<in> set (emitted t t') \<longleftrightarrow>
               p @ ''.meta'' \<notin> added \<and> strings_ToLower (p @ ''.meta'') \<notin> addedIgnoringCase
               \<and> depotAnswer cfg e (p @ ''.meta'') = (False, None))"
    by blast
  with sound full show ?thesis by blast
qed

theorem add_pass_missing_meta_witness:
  "\<not> suffix ''.meta'' ''//d/Assets/a.png''
   \<and> addLoop cfgUnity (depot clAsset noSuchFile sorted_list_of_set)
        {''//d/Assets/a.png''} {''//d/assets/a.png''} [''//d/Assets/a.png''] (start, True)
       = ((\<lparr>stdout = [Blank, MissingMeta ''//d/Assets/a.png''],
            fstats = [''//d/Assets/a.png.meta'']\<rparr>, False), None)
   \<and> lookedUp start \<lparr>stdout = [Blank, MissingMeta ''//d/Assets/a.png''],
                      fstats = [''//d/Assets/a.png.meta'']\<rparr> = [''//d/Assets/a.png.meta'']
   \<and> emitted start \<lparr>stdout = [Blank, MissingMeta ''//d/Assets/a.png''],
                     fstats = [''//d/Assets/a.png.meta'']\<rparr> = [MissingMeta ''//d/Assets/a.png'']
   \<and> ''//d/Assets/a.png'' @ ''.meta'' \<notin> {''//d/Assets/a.png''}
   \<and> strings_ToLower (''//d/Assets/a.png'' @ ''.meta'') \<notin> {''//d/assets/a.png''}
   \<and> depotAnswer cfgUnity (depot clAsset noSuchFile sorted_list_of_set)
        (''//d/Assets/a.png'' @ ''.meta'') = (False, None)
   \<and> (\<forall>q. snd (depotAnswer cfgUnity (depot clAsset noSuchFile sorted_list_of_set) q) = None)
   \<and> \<not> suffix ''.meta'' ''//d/Assets/Foo.PNG''
   \<and> addLoop cfgUnity (depot clCase noSuchFile sorted_list_of_set)
        {''//d/Assets/Foo.PNG'', ''//d/Assets/foo.png.meta''}
        {''//d/assets/foo.png'', ''//d/assets/foo.png.meta''}
        [''//d/Assets/Foo.PNG'', ''//d/Assets/foo.png.meta''] (start, True)
       = ((start, True), None)
   \<and> lookedUp start start = []
   \<and> strings_ToLower (''//d/Assets/Foo.PNG'' @ ''.meta'')
       \<in> {''//d/assets/foo.png'', ''//d/assets/foo.png.meta''}
   \<and> MissingMeta ''//d/Assets/Foo.PNG'' \<notin> set (emitted start start)
   \<and> \<not> suffix ''.meta'' (''//d/Assets/'' @ [CHR 0xC3, CHR 0x89] @ ''.PNG'')
   \<and> addLoop cfgUnity (depot clAccent noSuchFile sorted_list_of_set)
        {''//d/Assets/'' @ [CHR 0xC3, CHR 0x89] @ ''.PNG'',
         ''//d/Assets/'' @ [CHR 0xC3, CHR 0xA9] @ ''.png.meta''}
        {''//d/assets/'' @ [CHR 0xC3, CHR 0xA9] @ ''.png'',
         ''//d/assets/'' @ [CHR 0xC3, CHR 0xA9] @ ''.png.meta''}
        [''//d/Assets/'' @ [CHR 0xC3, CHR 0x89] @ ''.PNG'',
         ''//d/Assets/'' @ [CHR 0xC3, CHR 0xA9] @ ''.png.meta''] (start, True)
       = ((start, True), None)
   \<and> strings_ToLower ((''//d/Assets/'' @ [CHR 0xC3, CHR 0x89] @ ''.PNG'') @ ''.meta'')
       \<in> {''//d/assets/'' @ [CHR 0xC3, CHR 0xA9] @ ''.png'',
           ''//d/assets/'' @ [CHR 0xC3, CHR 0xA9] @ ''.png.meta''}
   \<and> MissingMeta (''//d/Assets/'' @ [CHR 0xC3, CHR 0x89] @ ''.PNG'') \<notin> set (emitted start start)"
proof -
  let ?e = "depot clAsset noSuchFile sorted_list_of_set"
  let ?t = "\<lparr>stdout = [Blank, MissingMeta ''//d/Assets/a.png''],
            fstats = [''//d/Assets/a.png.meta'']\<rparr>"
  have a1: "set [''//d/Assets/a.png''] = {''//d/Assets/a.png''}" by simp
  have a2: "''//d/Assets/a.png'' \<in> {''//d/Assets/a.png''}" by simp
  have a3: "\<not> suffix ''.meta'' ''//d/Assets/a.png''" by code_simp
  have a4: "addLoop cfgUnity ?e
        {''//d/Assets/a.png''} {''//d/assets/a.png''} [''//d/Assets/a.png''] (start, True)
       = ((?t, False), None)" by code_simp
  have a5: "lookedUp start ?t = [''//d/Assets/a.png.meta'']" by code_simp
  have a6: "emitted start ?t = [MissingMeta ''//d/Assets/a.png'']" by code_simp
  have a7: "snd (depotAnswer cfgUnity ?e ''//d/Assets/a.png.meta'') = None" by code_simp
  from a5 a7 have a8: "\<forall>q\<in>set (lookedUp start ?t). snd (depotAnswer cfgUnity ?e q) = None"
    by simp
  from a6 have a9: "MissingMeta ''//d/Assets/a.png'' \<in> set (emitted start ?t)" by simp
  have a10: "\<forall>q. snd (depotAnswer cfgUnity ?e q) = None"
    by (simp add: depot_answers noSuchFile_def)
  from add_pass_missing_meta [OF a1 a2 a3 a4] a8 a9 a10
  have a: "''//d/Assets/a.png'' @ ''.meta'' \<notin> {''//d/Assets/a.png''}
      \<and> strings_ToLower (''//d/Assets/a.png'' @ ''.meta'') \<notin> {''//d/assets/a.png''}
      \<and> depotAnswer cfgUnity ?e (''//d/Assets/a.png'' @ ''.meta'') = (False, None)"
    by blast
  have h1: "set [''//d/Assets/Foo.PNG'', ''//d/Assets/foo.png.meta'']
     = {''//d/Assets/Foo.PNG'', ''//d/Assets/foo.png.meta''}" by simp
  have h2: "''//d/Assets/Foo.PNG'' \<in> {''//d/Assets/Foo.PNG'', ''//d/Assets/foo.png.meta''}" by simp
  have h3: "\<not> suffix ''.meta'' ''//d/Assets/Foo.PNG''" by code_simp
  have h4: "addLoop cfgUnity (depot clCase noSuchFile sorted_list_of_set)
        {''//d/Assets/Foo.PNG'', ''//d/Assets/foo.png.meta''}
        {''//d/assets/foo.png'', ''//d/assets/foo.png.meta''}
        [''//d/Assets/Foo.PNG'', ''//d/Assets/foo.png.meta''] (start, True)
       = ((start, True), None)" by code_simp
  have h5: "strings_ToLower (''//d/Assets/Foo.PNG'' @ ''.meta'')
       \<in> {''//d/assets/foo.png'', ''//d/assets/foo.png.meta''}"
    by code_simp
  have h6: "lookedUp start start = []" by (simp add: lookedUp_def)
  then have h7: "\<forall>q\<in>set (lookedUp start start).
      snd (depotAnswer cfgUnity (depot clCase noSuchFile sorted_list_of_set) q) = None"
    by simp
  from add_pass_missing_meta [OF h1 h2 h3 h4] h5 h7
  have h: "MissingMeta ''//d/Assets/Foo.PNG'' \<notin> set (emitted start start)" by blast
  let ?E = "''//d/Assets/'' @ [CHR 0xC3, CHR 0x89] @ ''.PNG''"
  let ?m = "''//d/Assets/'' @ [CHR 0xC3, CHR 0xA9] @ ''.png.meta''"
  let ?AL = "{''//d/assets/'' @ [CHR 0xC3, CHR 0xA9] @ ''.png'',
              ''//d/assets/'' @ [CHR 0xC3, CHR 0xA9] @ ''.png.meta''}"
  have u1: "set [?E, ?m] = {?E, ?m}" by simp
  have u2: "?E \<in> {?E, ?m}" by simp
  have u3: "\<not> suffix ''.meta'' ?E" by code_simp
  have u4: "addLoop cfgUnity (depot clAccent noSuchFile sorted_list_of_set) {?E, ?m} ?AL
              [?E, ?m] (start, True) = ((start, True), None)" by code_simp
  have u5: "strings_ToLower (?E @ ''.meta'') \<in> ?AL" by code_simp
  have u7: "\<forall>q\<in>set (lookedUp start start).
      snd (depotAnswer cfgUnity (depot clAccent noSuchFile sorted_list_of_set) q) = None"
    using h6 by simp
  from add_pass_missing_meta [OF u1 u2 u3 u4] u5 u7
  have u: "MissingMeta ?E \<notin> set (emitted start start)" by blast
  from a3 a4 a5 a6 a a10 h3 h4 h5 h6 h u3 u4 u5 u show ?thesis by blast
qed

text \<open>
  \<^bold>\<open>C3\<close> (orphaned metadata in the delete-pass). Let \<open>p\<close> be a path of the deleted
  set that does not end in \<^verbatim>\<open>.meta\<close>, and let the loop visit the set in any order.
  Whenever the loop prints \<^verbatim>\<open>Need to delete the orphaned .meta for 'p'\<close>, the path
  \<open>p.meta\<close> is not in the deleted set, its lower-cased form is not in the lower-cased
  set, and the depot answered that \<open>p.meta\<close> still exists with a head action of
  \<open>opsExists\<close>. Whenever the depot answered every look-up the loop made (none of them
  failed), the loop runs to its end and prints that violation exactly under these
  conditions; so it does for a depot that answers every path. When the depot answers that \<open>p.meta\<close> is absent, the violation is not
  printed.
\<close>

theorem del_pass_orphaned_meta:
  assumes "set order = deleted" and "p \<in> deleted" and "\<not> suffix ''.meta'' p"
    and "delLoop cfg e deleted deletedIgnoringCase order (t, allow) = ((t', allow'), r)"
  shows "(OrphanedMeta p \<in> set (emitted t t') \<longrightarrow>
            p @ ''.meta'' \<notin> deleted \<and> strings_ToLower (p @ ''.meta'') \<notin> deletedIgnoringCase
            \<and> depotAnswer cfg e (p @ ''.meta'') = (True, None))
       \<and> ((\<forall>q\<in>set (lookedUp t t'). snd (depotAnswer cfg e q) = None) \<longrightarrow>
            r = None
            \<and> (OrphanedMeta p \<in> set (emitted t t') \<longleftrightarrow>
                 p @ ''.meta'' \<notin> deleted \<and> strings_ToLower (p @ ''.meta'') \<notin> deletedIgnoringCase
                 \<and> depotAnswer cfg e (p @ ''.meta'') = (True, None)))
       \<and> ((\<forall>q. snd (depotAnswer cfg e q) = None) \<longrightarrow>
            r = None
            \<and> (OrphanedMeta p \<in> set (emitted t t') \<longleftrightarrow>
                 p @ ''.meta'' \<notin> deleted \<and> strings_ToLower (p @ ''.meta'') \<notin> deletedIgnoringCase
                 \<and> depotAnswer cfg e (p @ ''.meta'') = (True, None)))
       \<and> (depotAnswer cfg e (p @ ''.meta'') = (False, None) \<longrightarrow>
            OrphanedMeta p \<notin> set (emitted t t'))"
proof -
  let ?B = "delStep cfg e deleted deletedIgnoringCase"
  from assms(4) have run: "rangeLoop ?B order (t, allow) = ((t', allow'), r)"
    by (simp add: delLoop_def)
  from assms(3) have ext: "filepath_Ext p \<noteq> ''.meta''" by (simp add: not_suffix_Ext)
  from pass_trace [OF delStep_framed delStep_turnShape run] obtain ks where
    "stdout t' = stdout t @ concat (map (prints ?B) ks)" by blast
  then have "emitted t t' = concat (map (prints ?B) ks)" by (rule emitted_append)
  then have sound: "OrphanedMeta p \<in> set (emitted t t') \<longrightarrow>
            p @ ''.meta'' \<notin> deleted \<and> strings_ToLower (p @ ''.meta'') \<notin> deletedIgnoringCase
            \<and> depotAnswer cfg e (p @ ''.meta'') = (True, None)"
    by (auto simp: del_OrphanedMeta_iff)
  have "r = None
        \<and> (OrphanedMeta p \<in> set (emitted t t') \<longleftrightarrow>
               p @ ''.meta'' \<notin> deleted \<and> strings_ToLower (p @ ''.meta'') \<notin> deletedIgnoringCase
               \<and> depotAnswer cfg e (p @ ''.meta'') = (True, None))"
    if ans: "\<forall>q\<in>set (lookedUp t t'). snd (depotAnswer cfg e q) = None"
  proof -
    from pass_answered [OF delStep_framed delStep_turnShape run ans] have r: "r = None" .
    with run have "rangeLoop ?B order (t, allow) = ((t', allow'), None)" by simp
    from pass_completes(1) [OF delStep_framed delStep_turnShape this]
    have "emitted t t' = concat (map (prints ?B) order)" by (rule emitted_append)
    then have "OrphanedMeta p \<in> set (emitted t t') \<longleftrightarrow>
        (\<exists>f\<in>set order. OrphanedMeta p \<in> set (prints ?B f))"
      by auto
    also have "\<dots> \<longleftrightarrow> p \<in> set order \<and> filepath_Ext p \<noteq> ''.meta'' \<and> p @ ''.meta'' \<notin> deleted
        \<and> strings_ToLower (p @ ''.meta'') \<notin> deletedIgnoringCase
        \<and> depotAnswer cfg e (p @ ''.meta'') = (True, None)"
      by (auto simp: del_OrphanedMeta_iff)
    finally show ?thesis using assms(1,2) ext r by simp
  qed
  then have full: "(\<forall>q\<in>set (lookedUp t t'). snd (depotAnswer cfg e q) = None) \<longrightarrow>
        r = None
        \<and> (OrphanedMeta p \<in> set (emitted t t') \<longleftrightarrow>
               p @ ''.meta'' \<notin> deleted \<and> strings_ToLower (p @ ''.meta'') \<notin> deletedIgnoringCase
               \<and> depotAnswer cfg e (p @ ''.meta'') = (True, None))"
    by blast
  then have every: "(\<forall>q. snd (depotAnswer cfg e q) = None) \<longrightarrow>
        r = None
        \<and> (OrphanedMeta p \<in> set (emitted t t') \<longleftrightarrow>
               p @ ''.meta'' \<notin> deleted \<and> strings_ToLower (p @ ''.meta'') \<notin> deletedIgnoringCase
               \<and> depotAnswer cfg e (p @ ''.meta'') = (True, None))"
    by blast
  have "depotAnswer cfg e (p @ ''.meta'') = (False, None) \<longrightarrow>
      OrphanedMeta p \<notin> set (emitted t t')"
    using sound by auto
  with sound full every show ?thesis by blast
qed

theorem del_pass_orphaned_meta_witness:
  "\<not> suffix ''.meta'' ''//d/Assets/b.png''
   \<and> delLoop cfgUnity (depot clDelete headEdit sorted_list_of_set)
        {''//d/Assets/b.png''} {''//d/assets/b.png''} [''//d/Assets/b.png''] (start, True)
       = ((\<lparr>stdout = [Blank, OrphanedMeta ''//d/Assets/b.png''],
            fstats = [''//d/Assets/b.png.meta'']\<rparr>, False), None)
   \<and> lookedUp start \<lparr>stdout = [Blank, OrphanedMeta ''//d/Assets/b.png''],
                      fstats = [''//d/Assets/b.png.meta'']\<rparr> = [''//d/Assets/b.png.meta'']
   \<and> depotAnswer cfgUnity (depot clDelete headEdit sorted_list_of_set)
        (''//d/Assets/b.png'' @ ''.meta'') = (True, None)
   \<and> ''//d/Assets/b.png'' @ ''.meta'' \<notin> {''//d/Assets/b.png''}
   \<and> strings_ToLower (''//d/Assets/b.png'' @ ''.meta'') \<notin> {''//d/assets/b.png''}
   \<and> OrphanedMeta ''//d/Assets/b.png''
       \<in> set (emitted start \<lparr>stdout = [Blank, OrphanedMeta ''//d/Assets/b.png''],
                                fstats = [''//d/Assets/b.png.meta'']\<rparr>)
   \<and> (\<forall>q. snd (depotAnswer cfgUnity (depot clDelete headEdit sorted_list_of_set) q) = None)
   \<and> delLoop cfgUnity (depot clDelete noSuchFile sorted_list_of_set)
        {''//d/Assets/b.png''} {''//d/assets/b.png''} [''//d/Assets/b.png''] (start, True)
       = ((\<lparr>stdout = [Blank], fstats = [''//d/Assets/b.png.meta'']\<rparr>, True), None)
   \<and> lookedUp start \<lparr>stdout = [Blank], fstats = [''//d/Assets/b.png.meta'']\<rparr>
       = [''//d/Assets/b.png.meta'']
   \<and> depotAnswer cfgUnity (depot clDelete noSuchFile sorted_list_of_set)
        (''//d/Assets/b.png'' @ ''.meta'') = (False, None)
   \<and> OrphanedMeta ''//d/Assets/b.png''
       \<notin> set (emitted start \<lparr>stdout = [Blank], fstats = [''//d/Assets/b.png.meta'']\<rparr>)"
proof -
  let ?e = "depot clDelete headEdit sorted_list_of_set"
  let ?t = "\<lparr>stdout = [Blank, OrphanedMeta ''//d/Assets/b.png''],
            fstats = [''//d/Assets/b.png.meta'']\<rparr>"
  let ?n = "depot clDelete noSuchFile sorted_list_of_set"
  let ?u = "\<lparr>stdout = [Blank], fstats = [''//d/Assets/b.png.meta'']\<rparr>"
  have h1: "set [''//d/Assets/b.png''] = {''//d/Assets/b.png''}" by simp
  have h2: "''//d/Assets/b.png'' \<in> {''//d/Assets/b.png''}" by simp
  have h3: "\<not> suffix ''.meta'' ''//d/Assets/b.png''" by code_simp
  have h4: "delLoop cfgUnity ?e
        {''//d/Assets/b.png''} {''//d/assets/b.png''} [''//d/Assets/b.png''] (start, True)
       = ((?t, False), None)" by code_simp
  have h5: "depotAnswer cfgUnity ?e (''//d/Assets/b.png'' @ ''.meta'') = (True, None)"
    by code_simp
  have h6: "''//d/Assets/b.png'' @ ''.meta'' \<notin> {''//d/Assets/b.png''}" by simp
  have h7: "strings_ToLower (''//d/Assets/b.png'' @ ''.meta'') \<notin> {''//d/assets/b.png''}"
    by code_simp
  have h8: "lookedUp start ?t = [''//d/Assets/b.png.meta'']" by code_simp
  from h5 have "snd (depotAnswer cfgUnity ?e ''//d/Assets/b.png.meta'') = None" by simp
  with h8 have h9: "\<forall>q\<in>set (lookedUp start ?t). snd (depotAnswer cfgUnity ?e q) = None"
    by simp
  have h10: "\<forall>q. snd (depotAnswer cfgUnity ?e q) = None"
    by (simp add: depot_answers headEdit_def)
  from del_pass_orphaned_meta [OF h1 h2 h3 h4] h5 h6 h7 h9 h10
  have h: "OrphanedMeta ''//d/Assets/b.png'' \<in> set (emitted start ?t)" by blast
  have n4: "delLoop cfgUnity ?n
        {''//d/Assets/b.png''} {''//d/assets/b.png''} [''//d/Assets/b.png''] (start, True)
       = ((?u, True), None)" by code_simp
  have n5: "depotAnswer cfgUnity ?n (''//d/Assets/b.png'' @ ''.meta'') = (False, None)"
    by code_simp
  have n8: "lookedUp start ?u = [''//d/Assets/b.png.meta'']" by code_simp
  from n5 have "snd (depotAnswer cfgUnity ?n ''//d/Assets/b.png.meta'') = None" by simp
  with n8 have n9: "\<forall>q\<in>set (lookedUp start ?u). snd (depotAnswer cfgUnity ?n q) = None"
    by simp
  from del_pass_orphaned_meta [OF h1 h2 h3 n4] n5 n9
  have n: "OrphanedMeta ''//d/Assets/b.png'' \<notin> set (emitted start ?u)" by blast
  from h3 h4 h8 h5 h6 h7 h h10 n4 n8 n5 n show ?thesis by blast
qed

text \<open>No turn of the add-pass looks a path without extension up.\<close>

lemma add_looks_Ext:
  assumes "x \<in> set (looks (addStep cfg e A AL) f)"
  shows "filepath_Ext x \<noteq> []"
proof -
  from assms have "filepath_Ext f \<noteq> ''.meta'' \<and> x = f @ ''.meta''
      \<or> filepath_Ext f = ''.meta'' \<and> x = take (length f - length ''.meta'') f \<and> filepath_Ext x \<noteq> []"
    by (simp add: add_looks_iff)
  then show ?thesis
    by (auto simp: filepath_Ext_append_meta)
qed

text \<open>
  \<^bold>\<open>C4\<close> (directory metadata). Let \<open>p = b.meta\<close> where \<open>b\<close> has no file extension.
  The turn of the add-pass for \<open>p\<close> changes nothing: it prints nothing and looks
  nothing up. In a whole add-pass, in any order and whether or not it runs to its end, no
  violation about \<open>p\<close> is printed and \<open>b\<close> is never looked up, whatever the depot
  would answer.
\<close>

theorem add_pass_directory_meta:
  assumes "p = b @ ''.meta''" and "filepath_Ext b = []"
    and "addLoop cfg e added addedIgnoringCase order (t, allow) = ((t', allow'), r)"
  shows "addStep cfg e added addedIgnoringCase p (t0, allow0) = ((t0, allow0), None)
         \<and> MissingAsset p \<notin> set (emitted t t') \<and> MissingMeta p \<notin> set (emitted t t')
         \<and> OrphanedMeta p \<notin> set (emitted t t') \<and> b \<notin> set (lookedUp t t')"
proof -
  from assms(1) have ext: "filepath_Ext p = ''.meta''"
    by (simp add: filepath_Ext_append_meta)
  have turn: "addStep cfg e added addedIgnoringCase p (t0, allow0) = ((t0, allow0), None)"
    unfolding assms(1) using assms(2)
    by (simp add: addStep_meta [OF filepath_Ext_append_meta] Let_def strings_TrimSpace_def)
  from assms(3) have run:
    "rangeLoop (addStep cfg e added addedIgnoringCase) order (t, allow) = ((t', allow'), r)"
    by (simp add: addLoop_def)
  from pass_trace [OF addStep_framed addStep_turnShape run] obtain ks where
    "stdout t' = stdout t @ concat (map (prints (addStep cfg e added addedIgnoringCase)) ks)"
    and "fstats t' = fstats t @ concat (map (looks (addStep cfg e added addedIgnoringCase)) ks)"
    by blast
  then have
    out: "emitted t t' = concat (map (prints (addStep cfg e added addedIgnoringCase)) ks)"
    and lk: "lookedUp t t' = concat (map (looks (addStep cfg e added addedIgnoringCase)) ks)"
    by (simp_all add: emitted_def lookedUp_def)
  have "MissingAsset p \<notin> set (emitted t t')"
    unfolding assms(1) using assms(2) by (auto simp: out add_MissingAsset_iff)
  moreover have "MissingMeta p \<notin> set (emitted t t')"
    using ext by (auto simp: out add_MissingMeta_iff)
  moreover have "OrphanedMeta p \<notin> set (emitted t t')"
  proof
    assume "OrphanedMeta p \<in> set (emitted t t')"
    then obtain f where "OrphanedMeta p \<in> set (prints (addStep cfg e added addedIgnoringCase) f)"
      by (auto simp: out)
    then show False
    proof (cases "filepath_Ext f = ''.meta''")
      case True
      from addTurn_meta [OF True, of cfg e added addedIgnoringCase]
        \<open>OrphanedMeta p \<in> set (prints (addStep cfg e added addedIgnoringCase) f)\<close>
      show False
        by (auto simp: Let_def split: if_splits prod.splits option.splits dest: launchNote_mem)
    next
      case False
      from addTurn_asset [OF False, of cfg e added addedIgnoringCase]
        \<open>OrphanedMeta p \<in> set (prints (addStep cfg e added addedIgnoringCase) f)\<close>
      show False
        by (auto split: if_splits prod.splits option.splits dest: launchNote_mem)
    qed
  qed
  moreover have "b \<notin> set (lookedUp t t')"
    using assms(2) add_looks_Ext [of b cfg e added addedIgnoringCase] by (auto simp: lk)
  ultimately show ?thesis using turn by simp
qed

theorem add_pass_directory_meta_witness:
  "filepath_Ext ''//d/Assets/Dir'' = []
   \<and> addLoop cfgUnity (depot clDirMeta connectFailed sorted_list_of_set)
        {''//d/Assets/Dir.meta''} {''//d/assets/dir.meta''} [''//d/Assets/Dir.meta''] (start, True)
       = ((start, True), None)
   \<and> addStep cfgUnity (depot clDirMeta connectFailed sorted_list_of_set)
        {''//d/Assets/Dir.meta''} {''//d/assets/dir.meta''} ''//d/Assets/Dir.meta'' (start, True)
       = ((start, True), None)
   \<and> ''//d/Assets/Dir'' \<notin> set (lookedUp start start)"
proof -
  have h1: "''//d/Assets/Dir.meta'' = ''//d/Assets/Dir'' @ ''.meta''" by simp
  have h2: "filepath_Ext ''//d/Assets/Dir'' = []" by code_simp
  have h3: "addLoop cfgUnity (depot clDirMeta connectFailed sorted_list_of_set)
        {''//d/Assets/Dir.meta''} {''//d/assets/dir.meta''} [''//d/Assets/Dir.meta''] (start, True)
       = ((start, True), None)" by code_simp
  from add_pass_directory_meta [OF h1 h2 h3, of start True]
  have "addStep cfgUnity (depot clDirMeta connectFailed sorted_list_of_set)
        {''//d/Assets/Dir.meta''} {''//d/assets/dir.meta''} ''//d/Assets/Dir.meta'' (start, True)
       = ((start, True), None) \<and> ''//d/Assets/Dir'' \<notin> set (lookedUp start start)"
    by blast
  with h2 h3 show ?thesis by blast
qed

text \<open>
  \<^bold>\<open>C5\<close> (deleted metadata is not checked). Let \<open>p\<close> be a path of the deleted set that
  ends in \<^verbatim>\<open>.meta\<close>. The turn of the delete-pass for \<open>p\<close> changes nothing, and in a
  whole delete-pass, in any order, no violation about \<open>p\<close> is printed and \<open>p\<close> is
  never looked up.
\<close>

theorem del_pass_ignores_meta:
  assumes "suffix ''.meta'' p" and "p \<in> deleted"
    and "delLoop cfg e deleted deletedIgnoringCase order (t, allow) = ((t', allow'), r)"
  shows "delStep cfg e deleted deletedIgnoringCase p (t0, allow0) = ((t0, allow0), None)
         \<and> OrphanedMeta p \<notin> set (emitted t t') \<and> MissingAsset p \<notin> set (emitted t t')
         \<and> MissingMeta p \<notin> set (emitted t t') \<and> p \<notin> set (lookedUp t t')"
proof -
  from assms(1) have ext: "filepath_Ext p = ''.meta''"
    using not_suffix_Ext [of p] by blast
  from assms(3) have run:
    "rangeLoop (delStep cfg e deleted deletedIgnoringCase) order (t, allow) = ((t', allow'), r)"
    by (simp add: delLoop_def)
  from pass_trace [OF delStep_framed delStep_turnShape run] obtain ks where
    "stdout t' = stdout t @ concat (map (prints (delStep cfg e deleted deletedIgnoringCase)) ks)"
    and "fstats t' = fstats t @ concat (map (looks (delStep cfg e deleted deletedIgnoringCase)) ks)"
    by blast
  then have
    out: "emitted t t' = concat (map (prints (delStep cfg e deleted deletedIgnoringCase)) ks)"
    and lk: "lookedUp t t' = concat (map (looks (delStep cfg e deleted deletedIgnoringCase)) ks)"
    by (simp_all add: emitted_def lookedUp_def)
  have noviol: "MissingAsset q \<notin> set (prints (delStep cfg e deleted deletedIgnoringCase) f)
      \<and> MissingMeta q \<notin> set (prints (delStep cfg e deleted deletedIgnoringCase) f)" for q f
  proof (cases "filepath_Ext f = ''.meta''")
    case True
    from delTurn_meta [OF True, of cfg e deleted deletedIgnoringCase] show ?thesis by simp
  next
    case False
    from delTurn_asset [OF False, of cfg e deleted deletedIgnoringCase] show ?thesis
      by (auto split: if_splits prod.splits option.splits dest: launchNote_mem)
  qed
  have "OrphanedMeta p \<notin> set (emitted t t')"
    using ext by (auto simp: out del_OrphanedMeta_iff)
  moreover have "MissingAsset p \<notin> set (emitted t t')" "MissingMeta p \<notin> set (emitted t t')"
    using noviol by (auto simp: out)
  moreover have "p \<notin> set (lookedUp t t')"
    using assms(2) by (auto simp: lk del_looks_iff)
  ultimately show ?thesis by (simp add: delStep_meta [OF ext])
qed

theorem del_pass_ignores_meta_witness:
  "suffix ''.meta'' ''//d/Assets/b.png.meta''
   \<and> delLoop cfgUnity (depot clDeleteMeta headEdit sorted_list_of_set)
        {''//d/Assets/b.png.meta''} {''//d/assets/b.png.meta''} [''//d/Assets/b.png.meta'']
        (start, True) = ((start, True), None)
   \<and> delStep cfgUnity (depot clDeleteMeta headEdit sorted_list_of_set)
        {''//d/Assets/b.png.meta''} {''//d/assets/b.png.meta''} ''//d/Assets/b.png.meta''
        (start, True) = ((start, True), None)
   \<and> OrphanedMeta ''//d/Assets/b.png.meta'' \<notin> set (emitted start start)
   \<and> ''//d/Assets/b.png.meta'' \<notin> set (lookedUp start start)"
proof -
  have h1: "suffix ''.meta'' ''//d/Assets/b.png.meta''" by code_simp
  have h2: "''//d/Assets/b.png.meta'' \<in> {''//d/Assets/b.png.meta''}" by simp
  have h3: "delLoop cfgUnity (depot clDeleteMeta headEdit sorted_list_of_set)
        {''//d/Assets/b.png.meta''} {''//d/assets/b.png.meta''} [''//d/Assets/b.png.meta'']
        (start, True) = ((start, True), None)" by code_simp
  from del_pass_ignores_meta [OF h1 h2 h3, of start True]
  have "delStep cfgUnity (depot clDeleteMeta headEdit sorted_list_of_set)
        {''//d/Assets/b.png.meta''} {''//d/assets/b.png.meta''} ''//d/Assets/b.png.meta''
        (start, True) = ((start, True), None)
   \<and> OrphanedMeta ''//d/Assets/b.png.meta'' \<notin> set (emitted start start)
   \<and> ''//d/Assets/b.png.meta'' \<notin> set (lookedUp start start)"
    by blast
  with h1 h3 show ?thesis by blast
qed

subsection \<open>The file records\<close>

lemma recordAt_length: "recordAt s = [] \<or> length (recordAt s) = 4"
  by (simp add: recordAt_def Let_def)

lemma reFileRecordUnpack_length:
  "reFileRecordUnpack s = [] \<or> length (reFileRecordUnpack s) = 4"
  by (induction s) (use recordAt_length in auto)

lemma recordAt_Nil [simp]: "recordAt [] = []"
  by (simp add: recordAt_def)

lemma reFileRecordUnpack_suffix:
  "recordAt s \<noteq> [] \<Longrightarrow> reFileRecordUnpack (pre @ s) \<noteq> []"
proof (induction pre)
  case Nil
  then show ?case by (cases s) auto
next
  case (Cons c pre)
  then show ?case by simp
qed

lemma reFileRecordUnpack_found:
  "reFileRecordUnpack s \<noteq> [] \<Longrightarrow> \<exists>pre s'. s = pre @ s' \<and> recordAt s' \<noteq> []"
proof (induction s)
  case Nil
  then show ?case by simp
next
  case (Cons c cs)
  show ?case
  proof (cases "recordAt (c # cs) \<noteq> []")
    case True
    then have "c # cs = [] @ (c # cs) \<and> recordAt (c # cs) \<noteq> []" by simp
    then show ?thesis by blast
  next
    case False
    with Cons.prems have "reFileRecordUnpack cs \<noteq> []" by simp
    with Cons.IH obtain pre s' where "cs = pre @ s'" "recordAt s' \<noteq> []" by blast
    then have "c # cs = (c # pre) @ s' \<and> recordAt s' \<noteq> []" by simp
    then show ?thesis by blast
  qed
qed

lemma not_isDigit_space [simp]: "\<not> isDigit CHR '' ''"
  by (simp add: isDigit_def)

lemma not_isWordSlash_newline [simp]: "\<not> isWordSlash (CHR 0x0A)"
  by (simp add: isWordSlash_def)

lemma recordAt_shape:
  assumes "path \<noteq> []" "CHR ''#'' \<notin> set path" "revn \<noteq> []" "\<forall>c\<in>set revn. isDigit c"
    "oper \<noteq> []" "\<forall>c\<in>set oper. isWordSlash c" "post = [] \<or> hd post = CHR 0x0A"
  shows "recordAt (path @ ''#'' @ revn @ '' '' @ oper @ post) \<noteq> []"
proof -
  let ?s = "path @ ''#'' @ revn @ '' '' @ oper @ post"
  from assms(2) have np: "\<forall>x\<in>set path. x \<noteq> CHR ''#''" by auto
  have tw1: "takeWhile (\<lambda>c. c \<noteq> CHR ''#'') ?s = path"
    using np by (simp add: takeWhile_tail)
  have dw1: "dropWhile (\<lambda>c. c \<noteq> CHR ''#'') ?s = ''#'' @ revn @ '' '' @ oper @ post"
    using np by (simp add: dropWhile_append3)
  have tw2: "takeWhile isDigit (revn @ '' '' @ oper @ post) = revn"
    using assms(4) by (simp add: takeWhile_tail)
  have dw2: "dropWhile isDigit (revn @ '' '' @ oper @ post) = '' '' @ oper @ post"
    using assms(4) by (simp add: dropWhile_append3)
  have post: "takeWhile isWordSlash post = []"
    using assms(7) by (cases post) auto
  have tw3: "takeWhile isWordSlash (oper @ post) = oper"
    using assms(6) post by (simp add: takeWhile_append2)
  have dw3: "dropWhile isWordSlash (oper @ post) = post"
    using assms(6) assms(7) by (cases post) (auto simp: dropWhile_append2 dropWhile_append3)
  have p1: "post = [] \<or> take 1 post = [CHR 0x0A]"
    using assms(7) by (cases post) auto
  have d1: "drop 1 (''#'' @ revn @ '' '' @ oper @ post) = revn @ '' '' @ oper @ post"
    by simp
  have d2: "drop 1 ('' '' @ oper @ post) = oper @ post"
    by simp
  show ?thesis
    unfolding recordAt_def Let_def tw1 dw1 d1 tw2 dw2 d2 tw3 dw3
    using assms(1,3,5) p1 by simp
qed

lemma recordAt_decompose:
  assumes "recordAt s \<noteq> []"
  shows "\<exists>path revn oper post.
        s = path @ ''#'' @ revn @ '' '' @ oper @ post
        \<and> path \<noteq> [] \<and> CHR ''#'' \<notin> set path
        \<and> revn \<noteq> [] \<and> (\<forall>c\<in>set revn. isDigit c)
        \<and> oper \<noteq> [] \<and> (\<forall>c\<in>set oper. isWordSlash c)
        \<and> (post = [] \<or> hd post = CHR 0x0A)"
proof -
  define path where "path = takeWhile (\<lambda>c. c \<noteq> CHR ''#'') s"
  define r1 where "r1 = dropWhile (\<lambda>c. c \<noteq> CHR ''#'') s"
  define revn where "revn = takeWhile isDigit (drop 1 r1)"
  define r2 where "r2 = dropWhile isDigit (drop 1 r1)"
  define oper where "oper = takeWhile isWordSlash (drop 1 r2)"
  define r3 where "r3 = dropWhile isWordSlash (drop 1 r2)"
  from assms have c: "path \<noteq> []" "r1 \<noteq> []" "revn \<noteq> []" "take 1 r2 = '' ''" "oper \<noteq> []"
    "r3 = [] \<or> take 1 r3 = [CHR 0x0A]"
    unfolding recordAt_def Let_def path_def r1_def revn_def r2_def oper_def r3_def
    by (auto split: if_splits)
  have s: "s = path @ r1" by (simp add: path_def r1_def)
  from c(2) have "hd r1 = CHR ''#''"
    using hd_dropWhile [of "\<lambda>c. c \<noteq> CHR ''#''" s] by (simp add: r1_def)
  with c(2) have r1: "r1 = ''#'' @ drop 1 r1" by (cases r1) auto
  have d1: "drop 1 r1 = revn @ r2" by (simp add: revn_def r2_def)
  from c(4) have r2: "r2 = '' '' @ drop 1 r2" by (cases r2) auto
  have d2: "drop 1 r2 = oper @ r3" by (simp add: oper_def r3_def)
  have "s = path @ ''#'' @ revn @ '' '' @ oper @ r3"
    using s r1 d1 r2 d2 by (metis append_assoc)
  moreover have "CHR ''#'' \<notin> set path"
    unfolding path_def by (metis (mono_tags, lifting) set_takeWhileD)
  moreover have "\<forall>c\<in>set revn. isDigit c"
    unfolding revn_def by (metis set_takeWhileD)
  moreover have "\<forall>c\<in>set oper. isWordSlash c"
    unfolding oper_def by (metis set_takeWhileD)
  moreover from c(6) have "r3 = [] \<or> hd r3 = CHR 0x0A" by (cases r3) auto
  ultimately have "s = path @ ''#'' @ revn @ '' '' @ oper @ r3
        \<and> path \<noteq> [] \<and> CHR ''#'' \<notin> set path
        \<and> revn \<noteq> [] \<and> (\<forall>c\<in>set revn. isDigit c)
        \<and> oper \<noteq> [] \<and> (\<forall>c\<in>set oper. isWordSlash c)
        \<and> (r3 = [] \<or> hd r3 = CHR 0x0A)"
    using c by simp
  then show ?thesis
    by (intro exI [of _ path] exI [of _ revn] exI [of _ oper] exI [of _ r3])
qed

text \<open>The search of the program finds a match exactly in the lines of that shape.\<close>

lemma reFileRecordUnpack_shape: "reFileRecordUnpack s \<noteq> [] \<longleftrightarrow> recordShape s"
proof
  assume "reFileRecordUnpack s \<noteq> []"
  then obtain pre s' where s: "s = pre @ s'" and m: "recordAt s' \<noteq> []"
    using reFileRecordUnpack_found by blast
  from recordAt_decompose [OF m] obtain path revn oper post where
    "s' = path @ ''#'' @ revn @ '' '' @ oper @ post
        \<and> path \<noteq> [] \<and> CHR ''#'' \<notin> set path
        \<and> revn \<noteq> [] \<and> (\<forall>c\<in>set revn. isDigit c)
        \<and> oper \<noteq> [] \<and> (\<forall>c\<in>set oper. isWordSlash c)
        \<and> (post = [] \<or> hd post = CHR 0x0A)"
    by blast
  with s have "s = pre @ path @ ''#'' @ revn @ '' '' @ oper @ post
        \<and> path \<noteq> [] \<and> CHR ''#'' \<notin> set path
        \<and> revn \<noteq> [] \<and> (\<forall>c\<in>set revn. isDigit c)
        \<and> oper \<noteq> [] \<and> (\<forall>c\<in>set oper. isWordSlash c)
        \<and> (post = [] \<or> hd post = CHR 0x0A)"
    by simp
  then show "recordShape s"
    unfolding recordShape_def
    by (intro exI [of _ pre] exI [of _ path] exI [of _ revn] exI [of _ oper] exI [of _ post])
next
  assume "recordShape s"
  then obtain pre path revn oper post where
    s: "s = pre @ path @ ''#'' @ revn @ '' '' @ oper @ post"
    and c: "path \<noteq> []" "CHR ''#'' \<notin> set path" "revn \<noteq> []" "\<forall>c\<in>set revn. isDigit c"
      "oper \<noteq> []" "\<forall>c\<in>set oper. isWordSlash c" "post = [] \<or> hd post = CHR 0x0A"
    unfolding recordShape_def by blast
  from recordAt_shape [OF c] have "recordAt (path @ ''#'' @ revn @ '' '' @ oper @ post) \<noteq> []" .
  from reFileRecordUnpack_suffix [OF this, of pre] s show "reFileRecordUnpack s \<noteq> []"
    by simp
qed

subsection \<open>The loop over the file records\<close>

lemma recordStep_None: "recordStep cfg item fs = None \<longleftrightarrow> \<not> recordShape item"
proof -
  have "recordStep cfg item fs = None \<longleftrightarrow> length (reFileRecordUnpack item) \<noteq> 4"
    by (simp add: recordStep_def Let_def split: prod.splits)
  also have "\<dots> \<longleftrightarrow> reFileRecordUnpack item = []"
    using reFileRecordUnpack_length [of item] by auto
  finally show ?thesis by (simp add: reFileRecordUnpack_shape [symmetric])
qed

lemma recordLoop_fails:
  assumes "bad \<in> set p4info" and "\<not> recordShape bad"
  shows "\<exists>item. item \<in> set p4info \<and> \<not> recordShape item \<and> recordLoop cfg p4info fs = Inl item"
  using assms(1)
proof (induction p4info arbitrary: fs)
  case Nil
  then show ?case by simp
next
  case (Cons item rest)
  show ?case
  proof (cases "recordStep cfg item fs")
    case None
    then have "\<not> recordShape item" by (simp add: recordStep_None)
    with None show ?thesis by auto
  next
    case (Some fs')
    then have "recordShape item" using recordStep_None [of cfg item fs] by auto
    with Cons.prems assms(2) have "bad \<in> set rest" by auto
    from Cons.IH [OF this, of fs'] Some show ?thesis by auto
  qed
qed

lemma recordLoop_parses:
  assumes "\<forall>item\<in>set p4info. recordShape item"
  shows "\<exists>fs'. recordLoop cfg p4info fs = Inr fs'"
  using assms
proof (induction p4info arbitrary: fs)
  case Nil
  then show ?case by simp
next
  case (Cons item rest)
  then have "recordStep cfg item fs \<noteq> None" by (simp add: recordStep_None)
  then obtain fs' where "recordStep cfg item fs = Some fs'" by auto
  with Cons show ?case by auto
qed

lemma recordStep_no_whitelist:
  assumes "PathWhitelist cfg = []" and "recordStep cfg item fs = Some fs'"
  shows "fs' = fs"
  using assms by (auto simp: recordStep_def Let_def split: prod.splits if_splits)

lemma recordLoop_no_whitelist:
  assumes "PathWhitelist cfg = []" and "\<forall>item\<in>set p4info. recordShape item"
  shows "recordLoop cfg p4info fs = Inr fs"
  using assms(2)
proof (induction p4info)
  case Nil
  then show ?case by simp
next
  case (Cons item rest)
  then have "recordStep cfg item fs \<noteq> None" by (simp add: recordStep_None)
  then obtain fs' where s: "recordStep cfg item fs = Some fs'" by auto
  with recordStep_no_whitelist [OF assms(1) s] Cons show ?case by auto
qed

lemma recordStep_finite:
  assumes "recordStep cfg item fs = Some fs'"
    and "finite (filesBeingAdded fs)" and "finite (filesBeingDeleted fs)"
  shows "finite (filesBeingAdded fs') \<and> finite (filesBeingDeleted fs')"
  using assms by (auto simp: recordStep_def Let_def add_def split: prod.splits if_splits)

lemma recordLoop_finite:
  assumes "recordLoop cfg p4info fs = Inr fs'"
    and "finite (filesBeingAdded fs)" and "finite (filesBeingDeleted fs)"
  shows "finite (filesBeingAdded fs') \<and> finite (filesBeingDeleted fs')"
  using assms
proof (induction p4info arbitrary: fs)
  case Nil
  then show ?case by simp
next
  case (Cons item rest)
  from Cons.prems(1) obtain fs1 where s: "recordStep cfg item fs = Some fs1"
    and r: "recordLoop cfg rest fs1 = Inr fs'"
    by (auto split: option.splits)
  from recordStep_finite [OF s Cons.prems(2,3)] Cons.IH [OF r] show ?case by simp
qed

subsection \<open>The checks before the passes\<close>

lemma strings_Contains_Nil [simp]: "strings_Contains s []"
  by (cases s) (simp_all add: strings_HasPrefix_def)

lemma validate_bypass:
  assumes "p4info \<noteq> []"
    and "list_ex (\<lambda>ln. strings_Contains ln (BypassKeyphrase cfg)) (drop 1 p4text)"
  shows "validate cfg e changelist p4text p4info t = (emit Bypassing t, p4ExitBypass)"
proof -
  from assms(2) have "p4text \<noteq> []" by auto
  with assms show ?thesis by (simp add: validate_def Let_def)
qed

lemma validate_parse_failure:
  assumes "p4text \<noteq> []"
    and "\<not> list_ex (\<lambda>ln. strings_Contains ln (BypassKeyphrase cfg)) (drop 1 p4text)"
    and "bad \<in> set p4info" and "\<not> recordShape bad"
  shows "\<exists>item. item \<in> set p4info \<and> \<not> recordShape item \<and>
           validate cfg e changelist p4text p4info t = (emit (ParseFailed item) t, p4ExitErrorException)"
proof -
  from recordLoop_fails [OF assms(3,4), of cfg noFiles] obtain item where
    i: "item \<in> set p4info" "\<not> recordShape item" "recordLoop cfg p4info noFiles = Inl item"
    by blast
  from assms(3) have "p4info \<noteq> []" by auto
  with assms(1,2) i(3) have
    "validate cfg e changelist p4text p4info t = (emit (ParseFailed item) t, p4ExitErrorException)"
    by (simp add: validate_def Let_def)
  with i(1,2) show ?thesis by blast
qed

lemma rangeOk_empty: "rangeOk f \<Longrightarrow> f {} = []"
proof -
  assume "rangeOk f"
  then have "set (f {}) = {}" unfolding rangeOk_def by blast
  then show ?thesis by simp
qed

lemma validate_no_whitelist:
  assumes "PathWhitelist cfg = []" and "p4text \<noteq> []" and "p4info \<noteq> []"
    and "\<not> list_ex (\<lambda>ln. strings_Contains ln (BypassKeyphrase cfg)) (drop 1 p4text)"
    and "\<forall>item\<in>set p4info. recordShape item"
    and "rangeOk (rangeAdded e)" and "rangeOk (rangeDeleted e)"
  shows "validate cfg e changelist p4text p4info t = (emit Success t, p4ExitSuccess)"
proof -
  from recordLoop_no_whitelist [OF assms(1,5)] have "recordLoop cfg p4info noFiles = Inr noFiles" .
  moreover have "rangeAdded e {} = []" "rangeDeleted e {} = []"
    using assms(6,7) by (simp_all add: rangeOk_empty)
  ultimately show ?thesis
    using assms(2,3,4)
    by (simp add: validate_def Let_def noFiles_def addLoop_def delLoop_def)
qed

lemma emit_start [simp]: "emit ln start = \<lparr>stdout = [Blank, ln], fstats = []\<rparr>"
  by (simp add: emit_def start_def)

lemma app_validate_start:
  "describes cfg e args changelist report \<Longrightarrow>
   app cfg e args = validate cfg e changelist (headerOf report) (recordsOf report) start"
  by (simp add: app_validate start_def)

lemma validate_no_header:
  "validate cfg e changelist [] p4info t = (emit (DescribeEmpty changelist) t, p4ExitErrorEmpty)"
  by (simp add: validate_def)

lemma validate_no_records:
  "p4text \<noteq> [] \<Longrightarrow>
   validate cfg e changelist p4text [] t = (emit (NoFileRecords changelist) t, p4ExitErrorEmpty)"
  by (simp add: validate_def)

subsection \<open>The bypass (C1, C10)\<close>

text \<open>
  \<^bold>\<open>C1\<close>, as the program has it. The two checks for an empty block come before the
  bypass. When the report has file records and a line of its header after the first
  holds the key phrase, the run prints the bypass note and returns \<open>p4ExitBypass\<close>:
  no record is parsed, no violation printed, nothing looked up. A report with a header
  and without file records ends with \<^verbatim>\<open>has no file records\<close> and
  \<open>p4ExitErrorEmpty\<close>, whether or not its header holds the key phrase, and a report
  without header ends with \<^verbatim>\<open>output is empty\<close> and \<open>p4ExitErrorEmpty\<close>.
\<close>

theorem bypass_after_empty_checks:
  assumes "describes cfg e args changelist report"
  shows "(recordsOf report \<noteq> [] \<and> bypassed cfg report \<longrightarrow>
            app cfg e args = (\<lparr>stdout = [Blank, Bypassing], fstats = []\<rparr>, p4ExitBypass))
       \<and> (recordsOf report = [] \<and> bypassed cfg report \<longrightarrow>
            app cfg e args
              = (\<lparr>stdout = [Blank, NoFileRecords changelist], fstats = []\<rparr>, p4ExitErrorEmpty))
       \<and> (recordsOf report = [] \<and> headerOf report \<noteq> [] \<longrightarrow>
            app cfg e args
              = (\<lparr>stdout = [Blank, NoFileRecords changelist], fstats = []\<rparr>, p4ExitErrorEmpty))
       \<and> (headerOf report = [] \<longrightarrow>
            app cfg e args
              = (\<lparr>stdout = [Blank, DescribeEmpty changelist], fstats = []\<rparr>, p4ExitErrorEmpty))"
proof -
  have app: "app cfg e args = validate cfg e changelist (headerOf report) (recordsOf report) start"
    using assms by (rule app_validate_start)
  have hd: "headerOf report \<noteq> []" if "bypassed cfg report"
    using that by (auto simp: bypassed_def)
  have "app cfg e args = (\<lparr>stdout = [Blank, Bypassing], fstats = []\<rparr>, p4ExitBypass)"
    if "recordsOf report \<noteq> []" and "bypassed cfg report"
    using that validate_bypass [of "recordsOf report" cfg "headerOf report" e changelist start]
    by (simp add: app bypassed_def)
  moreover have "app cfg e args
      = (\<lparr>stdout = [Blank, NoFileRecords changelist], fstats = []\<rparr>, p4ExitErrorEmpty)"
    if "recordsOf report = []" and "headerOf report \<noteq> []"
    using that by (simp add: app validate_no_records)
  moreover have "app cfg e args
      = (\<lparr>stdout = [Blank, DescribeEmpty changelist], fstats = []\<rparr>, p4ExitErrorEmpty)"
    if "headerOf report = []"
    using that by (simp add: app validate_no_header)
  ultimately show ?thesis using hd by blast
qed

theorem bypass_after_empty_checks_witness:
  "describes cfgUnity (depot clBypass noSuchFile sorted_list_of_set) [''1''] 1 (reportOf clBypass)
   \<and> recordsOf (reportOf clBypass) \<noteq> []
   \<and> bypassed cfgUnity (reportOf clBypass)
   \<and> app cfgUnity (depot clBypass noSuchFile sorted_list_of_set) [''1'']
       = (\<lparr>stdout = [Blank, Bypassing], fstats = []\<rparr>, p4ExitBypass)
   \<and> describes cfgUnity (depot clBypassNoFiles noSuchFile sorted_list_of_set) [''1''] 1
       (reportOf clBypassNoFiles)
   \<and> recordsOf (reportOf clBypassNoFiles) = []
   \<and> bypassed cfgUnity (reportOf clBypassNoFiles)
   \<and> headerOf (reportOf clBypassNoFiles) \<noteq> []
   \<and> app cfgUnity (depot clBypassNoFiles noSuchFile sorted_list_of_set) [''1'']
       = (\<lparr>stdout = [Blank, NoFileRecords 1], fstats = []\<rparr>, p4ExitErrorEmpty)
   \<and> describes cfgUnity (depot clNoHeader noSuchFile sorted_list_of_set) [''1''] 1
       (reportOf clNoHeader)
   \<and> headerOf (reportOf clNoHeader) = []
   \<and> app cfgUnity (depot clNoHeader noSuchFile sorted_list_of_set) [''1'']
       = (\<lparr>stdout = [Blank, DescribeEmpty 1], fstats = []\<rparr>, p4ExitErrorEmpty)"
proof -
  have h1: "describes cfgUnity (depot clBypass noSuchFile sorted_list_of_set) [''1''] 1
              (reportOf clBypass)" by code_simp
  have h2: "recordsOf (reportOf clBypass) \<noteq> []" by code_simp
  have h3: "bypassed cfgUnity (reportOf clBypass)" by code_simp
  from bypass_after_empty_checks [OF h1] h2 h3
  have h: "app cfgUnity (depot clBypass noSuchFile sorted_list_of_set) [''1'']
       = (\<lparr>stdout = [Blank, Bypassing], fstats = []\<rparr>, p4ExitBypass)" by blast
  have n1: "describes cfgUnity (depot clBypassNoFiles noSuchFile sorted_list_of_set) [''1''] 1
       (reportOf clBypassNoFiles)" by code_simp
  have n2: "recordsOf (reportOf clBypassNoFiles) = []" by code_simp
  have n3: "bypassed cfgUnity (reportOf clBypassNoFiles)" by code_simp
  have n4: "headerOf (reportOf clBypassNoFiles) \<noteq> []" by code_simp
  from bypass_after_empty_checks [OF n1] n2 n3
  have n: "app cfgUnity (depot clBypassNoFiles noSuchFile sorted_list_of_set) [''1'']
       = (\<lparr>stdout = [Blank, NoFileRecords 1], fstats = []\<rparr>, p4ExitErrorEmpty)" by blast
  have e1: "describes cfgUnity (depot clNoHeader noSuchFile sorted_list_of_set) [''1''] 1
       (reportOf clNoHeader)" by code_simp
  have e2: "headerOf (reportOf clNoHeader) = []" by code_simp
  from bypass_after_empty_checks [OF e1] e2
  have e: "app cfgUnity (depot clNoHeader noSuchFile sorted_list_of_set) [''1'']
       = (\<lparr>stdout = [Blank, DescribeEmpty 1], fstats = []\<rparr>, p4ExitErrorEmpty)" by blast
  from h1 h2 h3 h n1 n2 n3 n4 n e1 e2 e show ?thesis by blast
qed

text \<open>
  \<^bold>\<open>C1\<close>, as it is written, fails: a report whose header holds the key phrase and
  that has no file record ends with the error of the empty block, not with the bypass.
\<close>

theorem bypass_before_empty_checks_counterexample:
  "describes cfgUnity (depot clBypassNoFiles noSuchFile sorted_list_of_set) [''1''] 1
     (reportOf clBypassNoFiles)
   \<and> bypassed cfgUnity (reportOf clBypassNoFiles)
   \<and> recordsOf (reportOf clBypassNoFiles) = []
   \<and> app cfgUnity (depot clBypassNoFiles noSuchFile sorted_list_of_set) [''1'']
       = (\<lparr>stdout = [Blank, NoFileRecords 1], fstats = []\<rparr>, p4ExitErrorEmpty)
   \<and> p4ExitErrorEmpty \<noteq> p4ExitBypass"
  by code_simp

text \<open>
  \<^bold>\<open>C10\<close>, as the program has it. With the empty key phrase, every report that has at
  least two header lines and at least one file record is bypassed, whatever the
  records are. A report without file records is not bypassed: the two checks for an
  empty block come first, so with a header it ends with \<^verbatim>\<open>has no file records\<close>,
  without one with \<^verbatim>\<open>output is empty\<close>, both with \<open>p4ExitErrorEmpty\<close>.
\<close>

theorem empty_keyphrase_bypasses:
  assumes "describes cfg e args changelist report"
    and "BypassKeyphrase cfg = []"
  shows "(2 \<le> length (headerOf report) \<and> recordsOf report \<noteq> [] \<longrightarrow>
            app cfg e args = (\<lparr>stdout = [Blank, Bypassing], fstats = []\<rparr>, p4ExitBypass))
       \<and> (recordsOf report = [] \<and> headerOf report \<noteq> [] \<longrightarrow>
            app cfg e args
              = (\<lparr>stdout = [Blank, NoFileRecords changelist], fstats = []\<rparr>, p4ExitErrorEmpty))
       \<and> (recordsOf report = [] \<and> headerOf report = [] \<longrightarrow>
            app cfg e args
              = (\<lparr>stdout = [Blank, DescribeEmpty changelist], fstats = []\<rparr>, p4ExitErrorEmpty))"
proof -
  have app: "app cfg e args = validate cfg e changelist (headerOf report) (recordsOf report) start"
    using assms(1) by (rule app_validate_start)
  have "app cfg e args = (\<lparr>stdout = [Blank, Bypassing], fstats = []\<rparr>, p4ExitBypass)"
    if two: "2 \<le> length (headerOf report)" and rec: "recordsOf report \<noteq> []"
  proof -
    from two have "drop 1 (headerOf report) \<noteq> []" by simp
    then obtain ln where "ln \<in> set (drop 1 (headerOf report))"
      by (cases "drop 1 (headerOf report)") auto
    with assms(2) have
      "list_ex (\<lambda>ln. strings_Contains ln (BypassKeyphrase cfg)) (drop 1 (headerOf report))"
      by (auto simp: list_ex_iff)
    from validate_bypass [OF rec this, of e changelist start]
    show ?thesis by (simp add: app)
  qed
  moreover have "app cfg e args
      = (\<lparr>stdout = [Blank, NoFileRecords changelist], fstats = []\<rparr>, p4ExitErrorEmpty)"
    if "recordsOf report = []" and "headerOf report \<noteq> []"
    using that by (simp add: app validate_no_records)
  moreover have "app cfg e args
      = (\<lparr>stdout = [Blank, DescribeEmpty changelist], fstats = []\<rparr>, p4ExitErrorEmpty)"
    if "headerOf report = []"
    using that by (simp add: app validate_no_header)
  ultimately show ?thesis by blast
qed

theorem empty_keyphrase_bypasses_witness:
  "describes (cfgUnity\<lparr>BypassKeyphrase := []\<rparr>) (depot clAsset noSuchFile sorted_list_of_set)
     [''1''] 1 (reportOf clAsset)
   \<and> 2 \<le> length (headerOf (reportOf clAsset))
   \<and> recordsOf (reportOf clAsset) \<noteq> []
   \<and> app (cfgUnity\<lparr>BypassKeyphrase := []\<rparr>) (depot clAsset noSuchFile sorted_list_of_set) [''1'']
       = (\<lparr>stdout = [Blank, Bypassing], fstats = []\<rparr>, p4ExitBypass)
   \<and> describes (cfgUnity\<lparr>BypassKeyphrase := []\<rparr>)
       (depot clEmptyPhrase noSuchFile sorted_list_of_set) [''1''] 1 (reportOf clEmptyPhrase)
   \<and> recordsOf (reportOf clEmptyPhrase) = []
   \<and> headerOf (reportOf clEmptyPhrase) \<noteq> []
   \<and> app (cfgUnity\<lparr>BypassKeyphrase := []\<rparr>) (depot clEmptyPhrase noSuchFile sorted_list_of_set)
        [''1'']
       = (\<lparr>stdout = [Blank, NoFileRecords 1], fstats = []\<rparr>, p4ExitErrorEmpty)
   \<and> describes (cfgUnity\<lparr>BypassKeyphrase := []\<rparr>)
       (depot clNothing noSuchFile sorted_list_of_set) [''1''] 1 (reportOf clNothing)
   \<and> recordsOf (reportOf clNothing) = []
   \<and> headerOf (reportOf clNothing) = []
   \<and> app (cfgUnity\<lparr>BypassKeyphrase := []\<rparr>) (depot clNothing noSuchFile sorted_list_of_set)
        [''1'']
       = (\<lparr>stdout = [Blank, DescribeEmpty 1], fstats = []\<rparr>, p4ExitErrorEmpty)"
proof -
  let ?c = "cfgUnity\<lparr>BypassKeyphrase := []\<rparr>"
  have k: "BypassKeyphrase ?c = []" by simp
  have h1: "describes ?c (depot clAsset noSuchFile sorted_list_of_set) [''1''] 1 (reportOf clAsset)"
    by code_simp
  have h3: "2 \<le> length (headerOf (reportOf clAsset))" by code_simp
  have h4: "recordsOf (reportOf clAsset) \<noteq> []" by code_simp
  from empty_keyphrase_bypasses [OF h1 k] h3 h4
  have h: "app ?c (depot clAsset noSuchFile sorted_list_of_set) [''1'']
       = (\<lparr>stdout = [Blank, Bypassing], fstats = []\<rparr>, p4ExitBypass)" by blast
  have n1: "describes ?c (depot clEmptyPhrase noSuchFile sorted_list_of_set) [''1''] 1
       (reportOf clEmptyPhrase)" by code_simp
  have n2: "recordsOf (reportOf clEmptyPhrase) = []" by code_simp
  have n3: "headerOf (reportOf clEmptyPhrase) \<noteq> []" by code_simp
  from empty_keyphrase_bypasses [OF n1 k] n2 n3
  have n: "app ?c (depot clEmptyPhrase noSuchFile sorted_list_of_set) [''1'']
       = (\<lparr>stdout = [Blank, NoFileRecords 1], fstats = []\<rparr>, p4ExitErrorEmpty)" by blast
  have e1: "describes ?c (depot clNothing noSuchFile sorted_list_of_set) [''1''] 1
       (reportOf clNothing)" by code_simp
  have e2: "recordsOf (reportOf clNothing) = []" by code_simp
  have e3: "headerOf (reportOf clNothing) = []" by code_simp
  from empty_keyphrase_bypasses [OF e1 k] e2 e3
  have e: "app ?c (depot clNothing noSuchFile sorted_list_of_set) [''1'']
       = (\<lparr>stdout = [Blank, DescribeEmpty 1], fstats = []\<rparr>, p4ExitErrorEmpty)" by blast
  from h1 h3 h4 h n1 n2 n3 n e1 e2 e3 e show ?thesis by blast
qed

text \<open>
  \<^bold>\<open>C10\<close>, as it is written, fails: with the empty key phrase, a report of two header
  lines and no file record ends with the error of the empty block.
\<close>

theorem empty_keyphrase_no_files_counterexample:
  "describes (cfgUnity\<lparr>BypassKeyphrase := []\<rparr>) (depot clEmptyPhrase noSuchFile sorted_list_of_set)
     [''1''] 1 (reportOf clEmptyPhrase)
   \<and> BypassKeyphrase (cfgUnity\<lparr>BypassKeyphrase := []\<rparr>) = []
   \<and> 2 \<le> length (headerOf (reportOf clEmptyPhrase))
   \<and> app (cfgUnity\<lparr>BypassKeyphrase := []\<rparr>) (depot clEmptyPhrase noSuchFile sorted_list_of_set)
        [''1'']
       = (\<lparr>stdout = [Blank, NoFileRecords 1], fstats = []\<rparr>, p4ExitErrorEmpty)
   \<and> p4ExitErrorEmpty \<noteq> p4ExitBypass"
  by code_simp

subsection \<open>A record that does not parse (C6)\<close>

text \<open>
  \<^bold>\<open>C6\<close> (a record that does not parse is fatal). In a run that reaches the loop over
  the file records (the header is not empty and the bypass did not trigger), if some
  file record has not the shape \<^verbatim>\<open><path>#<revision> <operation>\<close>, the run prints the
  parse failure of such a record and nothing else, looks nothing up and returns
  \<open>p4ExitErrorException\<close>.
\<close>

theorem parse_failure_is_fatal:
  assumes "describes cfg e args changelist report"
    and "headerOf report \<noteq> []"
    and "\<not> bypassed cfg report"
    and "item \<in> set (recordsOf report)"
    and "\<not> recordShape item"
  shows "\<exists>bad. bad \<in> set (recordsOf report) \<and> \<not> recordShape bad \<and>
           app cfg e args =
             (\<lparr>stdout = [Blank, ParseFailed bad], fstats = []\<rparr>, p4ExitErrorException)"
  using validate_parse_failure [OF assms(2) _ assms(4,5), of cfg e changelist start] assms(1,3)
  by (simp add: app_validate_start bypassed_def)

theorem parse_failure_is_fatal_witness:
  "describes cfgUnity (depot clMalformed noSuchFile sorted_list_of_set) [''1''] 1
     (reportOf clMalformed)
   \<and> headerOf (reportOf clMalformed) \<noteq> []
   \<and> \<not> bypassed cfgUnity (reportOf clMalformed)
   \<and> ''//d/Assets/b.png'' \<in> set (recordsOf (reportOf clMalformed))
   \<and> \<not> recordShape ''//d/Assets/b.png''
   \<and> (\<exists>bad. app cfgUnity (depot clMalformed noSuchFile sorted_list_of_set) [''1''] =
             (\<lparr>stdout = [Blank, ParseFailed bad], fstats = []\<rparr>, p4ExitErrorException))"
proof -
  have h1: "describes cfgUnity (depot clMalformed noSuchFile sorted_list_of_set) [''1''] 1
     (reportOf clMalformed)" by code_simp
  have h2: "headerOf (reportOf clMalformed) \<noteq> []" by code_simp
  have h3: "\<not> bypassed cfgUnity (reportOf clMalformed)" by code_simp
  have h4: "''//d/Assets/b.png'' \<in> set (recordsOf (reportOf clMalformed))" by code_simp
  have "reFileRecordUnpack ''//d/Assets/b.png'' = []" by code_simp
  then have h5: "\<not> recordShape ''//d/Assets/b.png''"
    using reFileRecordUnpack_shape [of "''//d/Assets/b.png''"] by blast
  from parse_failure_is_fatal [OF h1 h2 h3 h4 h5] h1 h2 h3 h4 h5 show ?thesis by blast
qed

subsection \<open>An empty whitelist (C8)\<close>

lemma rangeOk_sorted: "rangeOk sorted_list_of_set"
  by (simp add: rangeOk_def)

lemma rangeOk_descending: "rangeOk descending"
  by (simp add: rangeOk_def descending_def)


text \<open>
  \<^bold>\<open>C8\<close> (an empty whitelist validates nothing). With an empty whitelist, a report
  with a header and with file records that all parse, and that is not bypassed, leaves
  the four sets empty (every record is dropped) and ends with \<^verbatim>\<open>success\<close> and
  \<open>p4ExitSuccess\<close>: no violation is printed and nothing is looked up.
\<close>

theorem empty_whitelist_validates_nothing:
  assumes "describes cfg e args changelist report"
    and "PathWhitelist cfg = []"
    and "headerOf report \<noteq> []" and "recordsOf report \<noteq> []"
    and "\<forall>item\<in>set (recordsOf report). recordShape item"
    and "\<not> bypassed cfg report"
    and "rangeOk (rangeAdded e)" and "rangeOk (rangeDeleted e)"
  shows "recordLoop cfg (recordsOf report) noFiles = Inr noFiles
       \<and> app cfg e args = (\<lparr>stdout = [Blank, Success], fstats = []\<rparr>, p4ExitSuccess)"
  using validate_no_whitelist [OF assms(2,3,4) _ assms(5,7,8), of changelist start] assms(1,6)
    recordLoop_no_whitelist [OF assms(2,5), of noFiles]
  by (simp add: app_validate_start bypassed_def)

theorem empty_whitelist_validates_nothing_witness:
  "describes (cfgUnity\<lparr>PathWhitelist := []\<rparr>) (depot clAsset noSuchFile sorted_list_of_set)
     [''1''] 1 (reportOf clAsset)
   \<and> PathWhitelist (cfgUnity\<lparr>PathWhitelist := []\<rparr>) = []
   \<and> headerOf (reportOf clAsset) \<noteq> []
   \<and> recordsOf (reportOf clAsset) = [''//d/Assets/a.png#1 add'']
   \<and> recordShape ''//d/Assets/a.png#1 add''
   \<and> \<not> bypassed (cfgUnity\<lparr>PathWhitelist := []\<rparr>) (reportOf clAsset)
   \<and> rangeOk (rangeAdded (depot clAsset noSuchFile sorted_list_of_set))
   \<and> rangeOk (rangeDeleted (depot clAsset noSuchFile sorted_list_of_set))
   \<and> app (cfgUnity\<lparr>PathWhitelist := []\<rparr>) (depot clAsset noSuchFile sorted_list_of_set) [''1'']
       = (\<lparr>stdout = [Blank, Success], fstats = []\<rparr>, p4ExitSuccess)"
proof -
  have h1: "describes (cfgUnity\<lparr>PathWhitelist := []\<rparr>)
     (depot clAsset noSuchFile sorted_list_of_set) [''1''] 1 (reportOf clAsset)" by code_simp
  have h2: "PathWhitelist (cfgUnity\<lparr>PathWhitelist := []\<rparr>) = []" by simp
  have h3: "headerOf (reportOf clAsset) \<noteq> []" by code_simp
  have r: "recordsOf (reportOf clAsset) = [''//d/Assets/a.png#1 add'']" by code_simp
  then have h4: "recordsOf (reportOf clAsset) \<noteq> []" by simp
  have "reFileRecordUnpack ''//d/Assets/a.png#1 add'' \<noteq> []" by code_simp
  then have s: "recordShape ''//d/Assets/a.png#1 add''"
    using reFileRecordUnpack_shape [of "''//d/Assets/a.png#1 add''"] by blast
  with r have h5: "\<forall>item\<in>set (recordsOf (reportOf clAsset)). recordShape item" by simp
  have h6: "\<not> bypassed (cfgUnity\<lparr>PathWhitelist := []\<rparr>) (reportOf clAsset)" by code_simp
  have h7: "rangeOk (rangeAdded (depot clAsset noSuchFile sorted_list_of_set))"
    by (simp add: depot_def rangeOk_sorted)
  have h8: "rangeOk (rangeDeleted (depot clAsset noSuchFile sorted_list_of_set))"
    by (simp add: depot_def rangeOk_sorted)
  from empty_whitelist_validates_nothing [OF h1 h2 h3 h4 h5 h6 h7 h8] h1 h2 h3 r s h6 h7 h8
  show ?thesis by blast
qed

subsection \<open>What a pass leaves behind\<close>

lemma concat_prints_complete:
  assumes sh: "turnShape cfg e body" and "\<forall>k\<in>set ks. returns body k = None"
  shows "\<forall>ln\<in>set (concat (map (prints body) ks)). violation ln"
    and "\<forall>x\<in>set (concat (map (looks body) ks)). snd (depotAnswer cfg e x) = None"
    and "(\<forall>k\<in>set ks. passes body k) \<longleftrightarrow> concat (map (prints body) ks) = []"
  using assms(2) turnShape_completes [OF sh] by auto

lemma violation_not_Success [simp]: "\<not> violation Success"
  by (simp add: violation_def)

lemma violation_not_FstatFailed [simp]: "\<not> violation (FstatFailed q err)"
  by (simp add: violation_def)

lemma violation_not_LaunchFailed [simp]: "\<not> violation (LaunchFailed err out)"
  by (simp add: violation_def)

lemma lookupFailed_simps [simp]:
  "lookupFailed (FstatFailed q err)" "\<not> lookupFailed Success" "\<not> lookupFailed Blank"
  "\<not> lookupFailed (LaunchFailed err out)"
  by (simp_all add: lookupFailed_def)

lemma violation_not_lookupFailed: "violation ln \<Longrightarrow> \<not> lookupFailed ln"
  by (cases ln) (simp_all add: violation_def lookupFailed_def)

lemma growsI: "stdout t' = stdout t @ xs \<Longrightarrow> fstats t' = fstats t @ ys \<Longrightarrow> grows t t'"
  by (simp add: grows_def emitted_def lookedUp_def)

lemma grows_trans:
  assumes "grows t t1" and "grows t1 t2"
  shows "grows t t2" and "emitted t t2 = emitted t t1 @ emitted t1 t2"
    and "lookedUp t t2 = lookedUp t t1 @ lookedUp t1 t2"
proof -
  define xs ys xs' ys' where "xs = emitted t t1" and "ys = lookedUp t t1"
    and "xs' = emitted t1 t2" and "ys' = lookedUp t1 t2"
  from assms have a: "stdout t1 = stdout t @ xs" "fstats t1 = fstats t @ ys"
    "stdout t2 = stdout t1 @ xs'" "fstats t2 = fstats t1 @ ys'"
    unfolding grows_def xs_def ys_def xs'_def ys'_def by blast+
  from a have b: "stdout t2 = stdout t @ (xs @ xs')" "fstats t2 = fstats t @ (ys @ ys')"
    by simp_all
  from growsI [OF b] show "grows t t2" .
  from b(1) have "emitted t t2 = xs @ xs'" by (simp add: emitted_def)
  then show "emitted t t2 = emitted t t1 @ emitted t1 t2" by (simp add: xs_def xs'_def)
  from b(2) have "lookedUp t t2 = ys @ ys'" by (simp add: lookedUp_def)
  then show "lookedUp t t2 = lookedUp t t1 @ lookedUp t1 t2" by (simp add: ys_def ys'_def)
qed

lemma grows_emit: "grows t (emit ln t)" "emitted t (emit ln t) = [ln]" "lookedUp t (emit ln t) = []"
  by (simp_all add: grows_def emitted_def lookedUp_def emit_def)

lemma grows_start:
  assumes "grows start t'"
  shows "stdout t' = Blank # emitted start t' \<and> fstats t' = lookedUp start t'"
proof -
  define xs ys where "xs = emitted start t'" and "ys = lookedUp start t'"
  from assms have "stdout t' = stdout start @ xs" "fstats t' = fstats start @ ys"
    unfolding grows_def xs_def ys_def by blast+
  then have "stdout t' = Blank # xs \<and> fstats t' = ys" by (simp add: start_def)
  then show ?thesis by (simp add: xs_def ys_def)
qed

text \<open>A pass that ran to its end: every look-up was answered, only violations were
  printed, and the flag is still set exactly when none was.\<close>

lemma pass_completes_facts:
  assumes fr: "framed body" and sh: "turnShape cfg e body"
    and run: "rangeLoop body ks (t, a) = ((t', a'), None)"
  shows "\<forall>x\<in>set (lookedUp t t'). snd (depotAnswer cfg e x) = None"
    and "\<forall>ln\<in>set (emitted t t'). violation ln"
    and "a' \<longleftrightarrow> a \<and> emitted t t' = []"
    and "grows t t'"
proof -
  note c = pass_completes [OF fr sh run]
  from c(1) have e: "emitted t t' = concat (map (prints body) ks)" by (rule emitted_append)
  from c(2) have l: "lookedUp t t' = concat (map (looks body) ks)" by (rule lookedUp_append)
  from concat_prints_complete [OF sh c(4)] e l c(3)
  show "\<forall>x\<in>set (lookedUp t t'). snd (depotAnswer cfg e x) = None"
    and "\<forall>ln\<in>set (emitted t t'). violation ln"
    and "a' \<longleftrightarrow> a \<and> emitted t t' = []"
    by simp_all
  from growsI [OF c(1) c(2)] show "grows t t'" .
qed

text \<open>A pass that returned: the last look-up failed, all before it were answered, and
  the failure note is the last line.\<close>

lemma pass_returns_facts:
  assumes fr: "framed body" and sh: "turnShape cfg e body"
    and run: "rangeLoop body ks (t, a) = ((t', a'), Some c)"
  shows "c = p4ExitErrorException"
    and "\<exists>xs x err q. lookedUp t t' = xs @ [x] \<and> snd (depotAnswer cfg e x) = Some err
           \<and> (\<forall>y\<in>set xs. snd (depotAnswer cfg e y) = None)
           \<and> last (emitted t t') = FstatFailed q err"
    and "emitted t t' \<noteq> []" and "lookupFailed (last (emitted t t'))"
    and "\<forall>ln\<in>set (emitted t t'). ln \<noteq> Success"
    and "grows t t'"
proof -
  from pass_returns [OF fr sh run] obtain pre k post x err q nt where
    ks: "ks = pre @ k # post" and pre: "\<forall>j\<in>set pre. returns body j = None"
    and c: "c = p4ExitErrorException"
    and x: "looks body k = [x]" "snd (depotAnswer cfg e x) = Some err"
    and out: "stdout t' = stdout t @ concat (map (prints body) pre) @ nt @ [FstatFailed q err]"
    and nt: "\<forall>ln\<in>set nt. \<exists>er out. ln = LaunchFailed er out"
    and lk: "fstats t' = fstats t @ concat (map (looks body) pre) @ [x]"
    by blast
  from out have e: "emitted t t' = concat (map (prints body) pre) @ nt @ [FstatFailed q err]"
    by (rule emitted_append)
  from lk have l: "lookedUp t t' = concat (map (looks body) pre) @ [x]"
    by (rule lookedUp_append)
  note p = concat_prints_complete [OF sh pre]
  show "c = p4ExitErrorException" by (rule c)
  from l x(2) p(2) e have
    "lookedUp t t' = concat (map (looks body) pre) @ [x] \<and> snd (depotAnswer cfg e x) = Some err
       \<and> (\<forall>y\<in>set (concat (map (looks body) pre)). snd (depotAnswer cfg e y) = None)
       \<and> last (emitted t t') = FstatFailed q err"
    by simp
  then show "\<exists>xs x err q. lookedUp t t' = xs @ [x] \<and> snd (depotAnswer cfg e x) = Some err
           \<and> (\<forall>y\<in>set xs. snd (depotAnswer cfg e y) = None)
           \<and> last (emitted t t') = FstatFailed q err"
    by (intro exI [of _ "concat (map (looks body) pre)"] exI [of _ x] exI [of _ err] exI [of _ q])
  from e show "emitted t t' \<noteq> []" by simp
  from e show "lookupFailed (last (emitted t t'))" by simp
  show "\<forall>ln\<in>set (emitted t t'). ln \<noteq> Success"
  proof
    fix ln assume "ln \<in> set (emitted t t')"
    with e have "ln \<in> set (concat (map (prints body) pre)) \<or> ln \<in> set nt \<or> ln = FstatFailed q err"
      by auto
    then show "ln \<noteq> Success"
    proof (elim disjE)
      assume "ln \<in> set (concat (map (prints body) pre))"
      with p(1) have "violation ln" by blast
      then show ?thesis using violation_not_Success by blast
    next
      assume "ln \<in> set nt"
      with nt show ?thesis by auto
    next
      assume "ln = FstatFailed q err"
      then show ?thesis by simp
    qed
  qed
  from growsI [OF out lk] show "grows t t'" .
qed

lemma pass_lookup_fails:
  assumes fr: "framed body" and sh: "turnShape cfg e body"
    and run: "rangeLoop body ks (t, a) = ((t', a'), r)"
    and x: "x \<in> set (lookedUp t t')" and err: "snd (depotAnswer cfg e x) = Some err"
  shows "r = Some p4ExitErrorException \<and> last (lookedUp t t') = x
         \<and> (\<exists>q. last (emitted t t') = FstatFailed q err)"
proof (cases r)
  case None
  with run pass_completes_facts(1) [OF fr sh] x err show ?thesis by fastforce
next
  case (Some c)
  with run have run': "rangeLoop body ks (t, a) = ((t', a'), Some c)" by simp
  from pass_returns_facts(2) [OF fr sh run'] obtain xs x' err' q where
    l: "lookedUp t t' = xs @ [x']" and a: "snd (depotAnswer cfg e x') = Some err'"
    and ok: "\<forall>y\<in>set xs. snd (depotAnswer cfg e y) = None"
    and last: "last (emitted t t') = FstatFailed q err'"
    by blast
  from x l ok err have "x = x'" by auto
  with a err have "err' = err" by simp
  with \<open>x = x'\<close> l last pass_returns_facts(1) [OF fr sh run'] Some show ?thesis by simp
qed

subsection \<open>The run as a whole\<close>

lemma app_front:
  "app cfg e args =
     (case front cfg e args of
        Inl r \<Rightarrow> r
      | Inr (changelist, report) \<Rightarrow>
          validate cfg e changelist (headerOf report) (recordsOf report) start)"
proof (cases "front cfg e args")
  case (Inl r)
  have ne: "strings_Split s [CHR 0x0D, CHR 0x0A] \<noteq> []" for s
    using strings_Split_crlf_not_Nil [of s] by (simp add: crlf_def)
  from Inl show ?thesis
    unfolding app_def front_def Let_def start_def [symmetric]
    by (auto simp: crlf_def ne split: if_splits sum.splits prod.splits option.splits list.splits)
next
  case (Inr b)
  obtain changelist report where b: "b = (changelist, report)" by (cases b)
  from Inr b have "describes cfg e args changelist report"
    unfolding front_def describes_def
    by (auto split: if_splits sum.splits prod.splits option.splits)
  from app_validate_start [OF this] Inr b show ?thesis by simp
qed

lemma front_early:
  "front cfg e args = Inl (t', code) \<Longrightarrow>
     code = p4ExitErrorUsage \<and> fstats t' = [] \<and> (\<exists>ln. stdout t' = [Blank, ln] \<and> ln \<noteq> Success
        \<and> \<not> lookupFailed ln \<and> \<not> violation ln)"
  unfolding front_def
  by (auto simp: lookupFailed_def violation_def split: if_splits sum.splits prod.splits option.splits)

lemma front_same_depot: "p4 e1 = p4 e2 \<Longrightarrow> front cfg e1 args = front cfg e2 args"
  by (simp add: front_def split: sum.splits)

text \<open>The ways \<^verbatim>\<open>app\<close> ends once it has the report.\<close>

lemma validate_cases:
  assumes "validate cfg e changelist p4text p4info t = (t', code)"
  obtains
    (early) ln where "t' = emit ln t" "ln \<noteq> Success" "\<not> lookupFailed ln" "\<not> violation ln"
      "ln = DescribeEmpty changelist \<or> ln = NoFileRecords changelist \<or> ln = Bypassing
         \<or> (\<exists>item. ln = ParseFailed item)"
  | (add_returns) fs a1 where "recordLoop cfg p4info noFiles = Inr fs"
      "rangeLoop (addStep cfg e (filesBeingAdded fs) (filesBeingAddedIgnoringCase fs))
         (rangeAdded e (filesBeingAdded fs)) (t, True) = ((t', a1), Some code)"
  | (del_returns) fs t1 a1 a2 where "recordLoop cfg p4info noFiles = Inr fs"
      "rangeLoop (addStep cfg e (filesBeingAdded fs) (filesBeingAddedIgnoringCase fs))
         (rangeAdded e (filesBeingAdded fs)) (t, True) = ((t1, a1), None)"
      "rangeLoop (delStep cfg e (filesBeingDeleted fs) (filesBeingDeletedIgnoringCase fs))
         (rangeDeleted e (filesBeingDeleted fs)) (t1, a1) = ((t', a2), Some code)"
  | (verdict) fs t1 a1 t2 a2 where "recordLoop cfg p4info noFiles = Inr fs"
      "rangeLoop (addStep cfg e (filesBeingAdded fs) (filesBeingAddedIgnoringCase fs))
         (rangeAdded e (filesBeingAdded fs)) (t, True) = ((t1, a1), None)"
      "rangeLoop (delStep cfg e (filesBeingDeleted fs) (filesBeingDeletedIgnoringCase fs))
         (rangeDeleted e (filesBeingDeleted fs)) (t1, a1) = ((t2, a2), None)"
      "(t', code) = (if a2 then (emit Success t2, p4ExitSuccess) else (t2, p4ExitProblems))"
  using assms
  unfolding validate_def Let_def addLoop_def delLoop_def
  by (auto simp: lookupFailed_def violation_def
           split: if_splits sum.splits prod.splits option.splits)

subsection \<open>A look-up that fails ends the run (C7)\<close>

lemma validate_grows:
  assumes v: "validate cfg e changelist p4text p4info t = (t', code)"
  shows "grows t t'"
  using v
proof (cases rule: validate_cases)
  case (early ln)
  then show ?thesis by (simp add: grows_emit)
next
  case (add_returns fs a1)
  from pass_returns_facts(6) [OF addStep_framed addStep_turnShape add_returns(2)]
  show ?thesis .
next
  case (del_returns fs t1 a1 a2)
  from grows_trans(1) [OF
      pass_completes_facts(4) [OF addStep_framed addStep_turnShape del_returns(2)]
      pass_returns_facts(6) [OF delStep_framed delStep_turnShape del_returns(3)]]
  show ?thesis .
next
  case (verdict fs t1 a1 t2 a2)
  from grows_trans(1) [OF
      pass_completes_facts(4) [OF addStep_framed addStep_turnShape verdict(2)]
      pass_completes_facts(4) [OF delStep_framed delStep_turnShape verdict(3)]]
  have g: "grows t t2" .
  show ?thesis
  proof (cases a2)
    case True
    with verdict(4) have "t' = emit Success t2" by simp
    with grows_trans(1) [OF g grows_emit(1)] show ?thesis by simp
  next
    case False
    with verdict(4) g show ?thesis by simp
  qed
qed

lemma validate_lookup_fails:
  assumes v: "validate cfg e changelist p4text p4info t = (t', code)"
    and x: "x \<in> set (lookedUp t t')" and err: "snd (depotAnswer cfg e x) = Some err"
  shows "code = p4ExitErrorException \<and> last (lookedUp t t') = x
         \<and> (\<exists>q. last (emitted t t') = FstatFailed q err) \<and> Success \<notin> set (emitted t t')
         \<and> emitted t t' \<noteq> []"
  using v
proof (cases rule: validate_cases)
  case (early ln)
  with x show ?thesis by (simp add: grows_emit)
next
  case (add_returns fs a1)
  note fr = addStep_framed and sh = addStep_turnShape
  note r = pass_returns_facts [OF fr sh add_returns(2)]
  from pass_lookup_fails [OF fr sh add_returns(2) x err]
  have "code = p4ExitErrorException" "last (lookedUp t t') = x"
    "\<exists>q. last (emitted t t') = FstatFailed q err"
    by simp_all
  moreover from r(5) have "Success \<notin> set (emitted t t')" by blast
  ultimately show ?thesis using r(3) by simp
next
  case (del_returns fs t1 a1 a2)
  note c = pass_completes_facts [OF addStep_framed addStep_turnShape del_returns(2)]
  note r = pass_returns_facts [OF delStep_framed delStep_turnShape del_returns(3)]
  note g = grows_trans [OF c(4) r(6)]
  have "x \<notin> set (lookedUp t t1)" using c(1) err by force
  with x g(3) have x': "x \<in> set (lookedUp t1 t')" by simp
  from pass_lookup_fails [OF delStep_framed delStep_turnShape del_returns(3) x' err]
  have code: "code = p4ExitErrorException" and lx: "last (lookedUp t1 t') = x"
    and q: "\<exists>q. last (emitted t1 t') = FstatFailed q err"
    by simp_all
  from x' have ne: "lookedUp t1 t' \<noteq> []" by auto
  have s1: "Success \<notin> set (emitted t t1)"
    using c(2) violation_not_Success by blast
  have s2: "Success \<notin> set (emitted t1 t')"
    using r(5) by blast
  from g(3) ne lx have "last (lookedUp t t') = x" by simp
  moreover from g(2) r(3) q have "\<exists>q. last (emitted t t') = FstatFailed q err" by simp
  moreover from g(2) s1 s2 have "Success \<notin> set (emitted t t')" by simp
  moreover from g(2) r(3) have "emitted t t' \<noteq> []" by simp
  ultimately show ?thesis using code by simp
next
  case (verdict fs t1 a1 t2 a2)
  note c = pass_completes_facts [OF addStep_framed addStep_turnShape verdict(2)]
  note d = pass_completes_facts [OF delStep_framed delStep_turnShape verdict(3)]
  note g = grows_trans [OF c(4) d(4)]
  have "lookedUp t t' = lookedUp t t2"
  proof (cases a2)
    case True
    with verdict(4) have "t' = emit Success t2" by simp
    with grows_trans(3) [OF g(1) grows_emit(1), of Success] show ?thesis
      by (simp add: grows_emit)
  next
    case False
    with verdict(4) show ?thesis by simp
  qed
  with g(3) x have "x \<in> set (lookedUp t t1) \<or> x \<in> set (lookedUp t1 t2)" by simp
  with c(1) d(1) err show ?thesis by force
qed

text \<open>
  \<^bold>\<open>C7\<close> (a failed look-up is fatal). Let the look-up of \<open>path\<close> fail with \<open>err\<close>. If
  the add-pass looks \<open>path\<close> up, it returns at once with \<open>p4ExitErrorException\<close>:
  \<open>path\<close> is its last look-up and the failure note its last line. The same holds
  for the delete-pass. If a run of \<^verbatim>\<open>app\<close> looks \<open>path\<close> up, the run returns
  \<open>p4ExitErrorException\<close>, \<open>path\<close> is the last look-up of the run, the failure note
  is the last line printed, and \<^verbatim>\<open>success\<close> is not printed.
\<close>

theorem lookup_failure_is_fatal:
  assumes "snd (depotAnswer cfg e path) = Some err"
  shows "(addLoop cfg e added addedIgnoringCase order (t, allow) = ((t', allow'), r)
            \<and> path \<in> set (lookedUp t t')
          \<longrightarrow> r = Some p4ExitErrorException \<and> last (lookedUp t t') = path
              \<and> (\<exists>q. last (emitted t t') = FstatFailed q err))
       \<and> (delLoop cfg e deleted deletedIgnoringCase order (t, allow) = ((t', allow'), r)
            \<and> path \<in> set (lookedUp t t')
          \<longrightarrow> r = Some p4ExitErrorException \<and> last (lookedUp t t') = path
              \<and> (\<exists>q. last (emitted t t') = FstatFailed q err))
       \<and> (path \<in> set (fstats (fst (app cfg e args)))
          \<longrightarrow> snd (app cfg e args) = p4ExitErrorException
              \<and> last (fstats (fst (app cfg e args))) = path
              \<and> (\<exists>q. last (stdout (fst (app cfg e args))) = FstatFailed q err)
              \<and> Success \<notin> set (stdout (fst (app cfg e args))))"
proof (intro conjI impI)
  assume a: "addLoop cfg e added addedIgnoringCase order (t, allow) = ((t', allow'), r)
            \<and> path \<in> set (lookedUp t t')"
  then have "rangeLoop (addStep cfg e added addedIgnoringCase) order (t, allow) = ((t', allow'), r)"
    by (simp add: addLoop_def)
  from pass_lookup_fails [OF addStep_framed addStep_turnShape this _ assms] a
  show "r = Some p4ExitErrorException" "last (lookedUp t t') = path"
    "\<exists>q. last (emitted t t') = FstatFailed q err"
    by auto
next
  assume a: "delLoop cfg e deleted deletedIgnoringCase order (t, allow) = ((t', allow'), r)
            \<and> path \<in> set (lookedUp t t')"
  then have "rangeLoop (delStep cfg e deleted deletedIgnoringCase) order (t, allow) = ((t', allow'), r)"
    by (simp add: delLoop_def)
  from pass_lookup_fails [OF delStep_framed delStep_turnShape this _ assms] a
  show "r = Some p4ExitErrorException" "last (lookedUp t t') = path"
    "\<exists>q. last (emitted t t') = FstatFailed q err"
    by auto
next
  assume p: "path \<in> set (fstats (fst (app cfg e args)))"
  have "snd (app cfg e args) = p4ExitErrorException
              \<and> last (fstats (fst (app cfg e args))) = path
              \<and> (\<exists>q. last (stdout (fst (app cfg e args))) = FstatFailed q err)
              \<and> Success \<notin> set (stdout (fst (app cfg e args)))"
  proof (cases "front cfg e args")
    case (Inl res)
    obtain t1 c1 where "res = (t1, c1)" by (cases res)
    with Inl front_early [of cfg e args t1 c1] p show ?thesis
      by (simp add: app_front)
  next
    case (Inr b)
    obtain changelist report where b: "b = (changelist, report)" by (cases b)
    obtain t1 c1 where v: "validate cfg e changelist (headerOf report) (recordsOf report) start = (t1, c1)"
      by (cases "validate cfg e changelist (headerOf report) (recordsOf report) start")
    with Inr b have ap: "app cfg e args = (t1, c1)" by (simp add: app_front)
    with p have "path \<in> set (lookedUp start t1)" by (simp add: lookedUp_def start_def)
    note px = this
    from validate_lookup_fails [OF v px assms]
    have c: "c1 = p4ExitErrorException" and l: "last (lookedUp start t1) = path"
      and q: "\<exists>q. last (emitted start t1) = FstatFailed q err"
      and s: "Success \<notin> set (emitted start t1)"
      and ne: "emitted start t1 \<noteq> []"
      by auto
    from grows_start [OF validate_grows [OF v]] have st: "stdout t1 = Blank # emitted start t1"
      and ft: "fstats t1 = lookedUp start t1"
      by simp_all
    from q ne st have "\<exists>q. last (stdout t1) = FstatFailed q err" by simp
    moreover from s st have "Success \<notin> set (stdout t1)" by simp
    moreover from l ft have "last (fstats t1) = path" by simp
    ultimately show ?thesis using ap c by simp
  qed
  then show "snd (app cfg e args) = p4ExitErrorException"
    "last (fstats (fst (app cfg e args))) = path"
    "\<exists>q. last (stdout (fst (app cfg e args))) = FstatFailed q err"
    "Success \<notin> set (stdout (fst (app cfg e args)))"
    by auto
qed

theorem lookup_failure_is_fatal_witness:
  "snd (depotAnswer cfgUnity (depot clAsset connectFailed sorted_list_of_set)
          ''//d/Assets/a.png.meta'') = Some ''exit status 1''
   \<and> addLoop cfgUnity (depot clAsset connectFailed sorted_list_of_set)
        {''//d/Assets/a.png''} {''//d/assets/a.png''} [''//d/Assets/a.png''] (start, True)
       = ((\<lparr>stdout = [Blank, LaunchFailed ''exit status 1'' ''error: connect failed'',
                         FstatFailed ''//d/Assets/a.png.meta'' ''exit status 1''],
            fstats = [''//d/Assets/a.png.meta'']\<rparr>, True), Some p4ExitErrorException)
   \<and> ''//d/Assets/a.png.meta''
       \<in> set (fstats (fst (app cfgUnity (depot clAsset connectFailed sorted_list_of_set) [''1''])))
   \<and> snd (app cfgUnity (depot clAsset connectFailed sorted_list_of_set) [''1''])
       = p4ExitErrorException
   \<and> Success \<notin> set (stdout (fst (app cfgUnity (depot clAsset connectFailed sorted_list_of_set)
                                        [''1''])))
   \<and> snd (depotAnswer cfgUnity (depot clDelete connectFailed sorted_list_of_set)
          ''//d/Assets/b.png.meta'') = Some ''exit status 1''
   \<and> delLoop cfgUnity (depot clDelete connectFailed sorted_list_of_set)
        {''//d/Assets/b.png''} {''//d/assets/b.png''} [''//d/Assets/b.png''] (start, True)
       = ((\<lparr>stdout = [Blank, LaunchFailed ''exit status 1'' ''error: connect failed'',
                         FstatFailed ''//d/Assets/b.png'' ''exit status 1''],
            fstats = [''//d/Assets/b.png.meta'']\<rparr>, True), Some p4ExitErrorException)
   \<and> ''//d/Assets/b.png.meta''
       \<in> set (fstats (fst (app cfgUnity (depot clDelete connectFailed sorted_list_of_set) [''1''])))
   \<and> snd (app cfgUnity (depot clDelete connectFailed sorted_list_of_set) [''1''])
       = p4ExitErrorException
   \<and> Success \<notin> set (stdout (fst (app cfgUnity (depot clDelete connectFailed sorted_list_of_set)
                                        [''1''])))"
proof -
  have a1: "snd (depotAnswer cfgUnity (depot clAsset connectFailed sorted_list_of_set)
          ''//d/Assets/a.png.meta'') = Some ''exit status 1''" by code_simp
  have a2: "''//d/Assets/a.png.meta''
       \<in> set (fstats (fst (app cfgUnity (depot clAsset connectFailed sorted_list_of_set) [''1''])))"
    by code_simp
  have a4: "addLoop cfgUnity (depot clAsset connectFailed sorted_list_of_set)
        {''//d/Assets/a.png''} {''//d/assets/a.png''} [''//d/Assets/a.png''] (start, True)
       = ((\<lparr>stdout = [Blank, LaunchFailed ''exit status 1'' ''error: connect failed'',
                         FstatFailed ''//d/Assets/a.png.meta'' ''exit status 1''],
            fstats = [''//d/Assets/a.png.meta'']\<rparr>, True), Some p4ExitErrorException)"
    by code_simp
  have d1: "snd (depotAnswer cfgUnity (depot clDelete connectFailed sorted_list_of_set)
          ''//d/Assets/b.png.meta'') = Some ''exit status 1''" by code_simp
  have d2: "''//d/Assets/b.png.meta''
       \<in> set (fstats (fst (app cfgUnity (depot clDelete connectFailed sorted_list_of_set) [''1''])))"
    by code_simp
  have d4: "delLoop cfgUnity (depot clDelete connectFailed sorted_list_of_set)
        {''//d/Assets/b.png''} {''//d/assets/b.png''} [''//d/Assets/b.png''] (start, True)
       = ((\<lparr>stdout = [Blank, LaunchFailed ''exit status 1'' ''error: connect failed'',
                         FstatFailed ''//d/Assets/b.png'' ''exit status 1''],
            fstats = [''//d/Assets/b.png.meta'']\<rparr>, True), Some p4ExitErrorException)"
    by code_simp
  from lookup_failure_is_fatal [OF a1, where args = "[''1'']"] a2
  have a3: "snd (app cfgUnity (depot clAsset connectFailed sorted_list_of_set) [''1''])
       = p4ExitErrorException
   \<and> Success \<notin> set (stdout (fst (app cfgUnity (depot clAsset connectFailed sorted_list_of_set)
                                        [''1''])))"
    by blast
  from lookup_failure_is_fatal [OF d1, where args = "[''1'']"] d2
  have d3: "snd (app cfgUnity (depot clDelete connectFailed sorted_list_of_set) [''1''])
       = p4ExitErrorException
   \<and> Success \<notin> set (stdout (fst (app cfgUnity (depot clDelete connectFailed sorted_list_of_set)
                                        [''1''])))"
    by blast
  from a1 a2 a3 a4 d1 d2 d3 d4 show ?thesis by blast
qed

subsection \<open>Two visits of the same sets (C9)\<close>

lemma same_depot_steps:
  assumes "p4 e2 = p4 e1"
  shows "addStep cfg e2 A AL = addStep cfg e1 A AL"
    and "delStep cfg e2 D DL = delStep cfg e1 D DL"
    and "depotAnswer cfg e2 = depotAnswer cfg e1"
proof -
  have f: "fileExistsInDepot cfg e2 = fileExistsInDepot cfg e1"
  proof (intro ext)
    fix path t
    show "fileExistsInDepot cfg e2 path t = fileExistsInDepot cfg e1 path t"
      unfolding fileExistsInDepot_def assms ..
  qed
  show "addStep cfg e2 A AL = addStep cfg e1 A AL"
  proof (intro ext)
    fix k tb
    show "addStep cfg e2 A AL k tb = addStep cfg e1 A AL k tb"
      unfolding addStep_def f ..
  qed
  show "delStep cfg e2 D DL = delStep cfg e1 D DL"
  proof (intro ext)
    fix k tb
    show "delStep cfg e2 D DL k tb = delStep cfg e1 D DL k tb"
      unfolding delStep_def f ..
  qed
  show "depotAnswer cfg e2 = depotAnswer cfg e1"
  proof (intro ext)
    fix path
    show "depotAnswer cfg e2 path = depotAnswer cfg e1 path"
      unfolding depotAnswer_def f ..
  qed
qed

lemma set_concat_map: "set (concat (map f ks)) = (\<Union>k\<in>set ks. set (f k))"
  by simp

lemma pass_two_orders:
  assumes fr: "framed body" and sh: "turnShape cfg e body" and same: "set ks1 = set ks2"
    and run1: "rangeLoop body ks1 (t, a) = ((t1, a1), r1)"
    and run2: "rangeLoop body ks2 (u, a) = ((u1, b1), r2)"
  shows "r1 = r2"
    and "r1 = None \<Longrightarrow> set (emitted t t1) = set (emitted u u1)"
    and "r1 = None \<Longrightarrow> set (lookedUp t t1) = set (lookedUp u u1)"
    and "r1 = None \<Longrightarrow> a1 = b1"
proof -
  from pass_completes_iff [OF fr sh run1] pass_completes_iff [OF fr sh run2] same
  have n: "r1 = None \<longleftrightarrow> r2 = None" by simp
  show "r1 = r2"
  proof (cases r1)
    case None
    with n show ?thesis by simp
  next
    case (Some c1)
    with n obtain c2 where c2: "r2 = Some c2" by auto
    from run1 Some have "rangeLoop body ks1 (t, a) = ((t1, a1), Some c1)" by simp
    from pass_returns_facts(1) [OF fr sh this] have "c1 = p4ExitErrorException" .
    moreover from run2 c2 have "rangeLoop body ks2 (u, a) = ((u1, b1), Some c2)" by simp
    from pass_returns_facts(1) [OF fr sh this] have "c2 = p4ExitErrorException" .
    ultimately show ?thesis using Some c2 by simp
  qed
  assume r: "r1 = None"
  with n have r2: "r2 = None" by simp
  from run1 r have c1: "rangeLoop body ks1 (t, a) = ((t1, a1), None)" by simp
  from run2 r2 have c2: "rangeLoop body ks2 (u, a) = ((u1, b1), None)" by simp
  note p1 = pass_completes [OF fr sh c1] and p2 = pass_completes [OF fr sh c2]
  from p1(1) have e1: "emitted t t1 = concat (map (prints body) ks1)" by (rule emitted_append)
  from p2(1) have e2: "emitted u u1 = concat (map (prints body) ks2)" by (rule emitted_append)
  from p1(2) have l1: "lookedUp t t1 = concat (map (looks body) ks1)" by (rule lookedUp_append)
  from p2(2) have l2: "lookedUp u u1 = concat (map (looks body) ks2)" by (rule lookedUp_append)
  show "set (emitted t t1) = set (emitted u u1)"
    unfolding e1 e2 set_concat_map same ..
  show "set (lookedUp t t1) = set (lookedUp u u1)"
    unfolding l1 l2 set_concat_map same ..
  from p1(3) p2(3) same show "a1 = b1" by simp
qed

text \<open>The run past the checks, as the two passes one after the other.\<close>

lemma validate_passes:
  assumes "p4text \<noteq> []" and "p4info \<noteq> []"
    and "\<not> list_ex (\<lambda>ln. strings_Contains ln (BypassKeyphrase cfg)) (drop 1 p4text)"
    and "recordLoop cfg p4info noFiles = Inr fs"
    and "rangeLoop (addStep cfg e (filesBeingAdded fs) (filesBeingAddedIgnoringCase fs))
           (rangeAdded e (filesBeingAdded fs)) (t, True) = ((t1, a1), r1)"
    and "rangeLoop (delStep cfg e (filesBeingDeleted fs) (filesBeingDeletedIgnoringCase fs))
           (rangeDeleted e (filesBeingDeleted fs)) (t1, a1) = ((t2, a2), r2)"
  shows "validate cfg e changelist p4text p4info t =
           (case r1 of Some code \<Rightarrow> (t1, code)
            | None \<Rightarrow> (case r2 of Some code \<Rightarrow> (t2, code)
                       | None \<Rightarrow> if a2 then (emit Success t2, p4ExitSuccess)
                                 else (t2, p4ExitProblems)))"
  using assms
  by (simp add: validate_def Let_def addLoop_def delLoop_def split: option.splits)

lemma validate_early_same:
  assumes "p4text = [] \<or> p4info = []
           \<or> list_ex (\<lambda>ln. strings_Contains ln (BypassKeyphrase cfg)) (drop 1 p4text)
           \<or> (\<exists>item. recordLoop cfg p4info noFiles = Inl item)"
  shows "validate cfg e1 changelist p4text p4info t = validate cfg e2 changelist p4text p4info t"
    and "\<forall>ln\<in>set (emitted t (fst (validate cfg e1 changelist p4text p4info t))). \<not> lookupFailed ln"
  using assms
  by (auto simp: validate_def Let_def grows_emit lookupFailed_def split: sum.splits)

lemma rangeOk_set: "rangeOk f \<Longrightarrow> rangeOk g \<Longrightarrow> finite S \<Longrightarrow> set (f S) = set (g S)"
  unfolding rangeOk_def by simp

lemma validate_two_orders:
  assumes same: "p4 e2 = p4 e1"
    and ok: "rangeOk (rangeAdded e1)" "rangeOk (rangeDeleted e1)"
            "rangeOk (rangeAdded e2)" "rangeOk (rangeDeleted e2)"
    and v1: "validate cfg e1 changelist p4text p4info t = (t1, c1)"
    and v2: "validate cfg e2 changelist p4text p4info t = (t2, c2)"
  shows "c1 = c2
       \<and> ((\<exists>ln\<in>set (emitted t t1). lookupFailed ln) \<longleftrightarrow> (\<exists>ln\<in>set (emitted t t2). lookupFailed ln))
       \<and> ((\<forall>ln\<in>set (emitted t t1). \<not> lookupFailed ln) \<longrightarrow>
             set (emitted t t1) = set (emitted t t2) \<and> set (lookedUp t t1) = set (lookedUp t t2))
       \<and> ((\<forall>path. snd (depotAnswer cfg e1 path) = None) \<longrightarrow>
             (\<forall>ln\<in>set (emitted t t1). \<not> lookupFailed ln))"
proof (cases "p4text = [] \<or> p4info = []
           \<or> list_ex (\<lambda>ln. strings_Contains ln (BypassKeyphrase cfg)) (drop 1 p4text)
           \<or> (\<exists>item. recordLoop cfg p4info noFiles = Inl item)")
  case True
  from validate_early_same(1) [OF True, where ?e1.0 = e1 and ?e2.0 = e2 and changelist = changelist
        and t = t]
    validate_early_same(2) [OF True, where ?e1.0 = e1 and changelist = changelist and t = t] v1 v2
  have "t2 = t1" "c2 = c1" "\<forall>ln\<in>set (emitted t t1). \<not> lookupFailed ln"
    by simp_all
  then show ?thesis by simp
next
  case False
  then have ne: "p4text \<noteq> []" "p4info \<noteq> []"
    and nb: "\<not> list_ex (\<lambda>ln. strings_Contains ln (BypassKeyphrase cfg)) (drop 1 p4text)"
    and "\<not> (\<exists>item. recordLoop cfg p4info noFiles = Inl item)"
    by simp_all
  then obtain fs where fs: "recordLoop cfg p4info noFiles = Inr fs"
    by (cases "recordLoop cfg p4info noFiles") auto
  define A AL D DL where "A = filesBeingAdded fs" and "AL = filesBeingAddedIgnoringCase fs"
    and "D = filesBeingDeleted fs" and "DL = filesBeingDeletedIgnoringCase fs"
  from recordLoop_finite [OF fs] have fin: "finite A" "finite D"
    by (simp_all add: A_def D_def noFiles_def)
  note st = same_depot_steps [OF same]
  let ?add = "addStep cfg e1 A AL" and ?del = "delStep cfg e1 D DL"
  have fra: "framed ?add" and sha: "turnShape cfg e1 ?add"
    and frd: "framed ?del" and shd: "turnShape cfg e1 ?del"
    by (rule addStep_framed, rule addStep_turnShape, rule delStep_framed, rule delStep_turnShape)
  obtain ta aa ra where a1: "rangeLoop ?add (rangeAdded e1 A) (t, True) = ((ta, aa), ra)"
    by (metis surj_pair)
  obtain ua ba rb where a2: "rangeLoop ?add (rangeAdded e2 A) (t, True) = ((ua, ba), rb)"
    by (metis surj_pair)
  obtain td ad rd where d1: "rangeLoop ?del (rangeDeleted e1 D) (ta, aa) = ((td, ad), rd)"
    by (metis surj_pair)
  obtain ud bd re where d2: "rangeLoop ?del (rangeDeleted e2 D) (ua, ba) = ((ud, bd), re)"
    by (metis surj_pair)
  have r1: "(t1, c1) = (case ra of Some code \<Rightarrow> (ta, code)
            | None \<Rightarrow> (case rd of Some code \<Rightarrow> (td, code)
                       | None \<Rightarrow> if ad then (emit Success td, p4ExitSuccess)
                                 else (td, p4ExitProblems)))"
    using validate_passes [OF ne nb fs, of e1 t ta aa ra td ad rd changelist] a1 d1 v1
    by (simp add: A_def AL_def D_def DL_def)
  have r2: "(t2, c2) = (case rb of Some code \<Rightarrow> (ua, code)
            | None \<Rightarrow> (case re of Some code \<Rightarrow> (ud, code)
                       | None \<Rightarrow> if bd then (emit Success ud, p4ExitSuccess)
                                 else (ud, p4ExitProblems)))"
    using validate_passes [OF ne nb fs, of e2 t ua ba rb ud bd re changelist] a2 d2 v2
    by (simp add: A_def AL_def D_def DL_def st)
  from rangeOk_set [OF ok(1) ok(3) fin(1)] have sa: "set (rangeAdded e1 A) = set (rangeAdded e2 A)" .
  from rangeOk_set [OF ok(2) ok(4) fin(2)]
  have sd: "set (rangeDeleted e1 D) = set (rangeDeleted e2 D)" .
  note pa = pass_two_orders [OF fra sha sa a1 a2]
  show ?thesis
  proof (cases ra)
    case (Some c)
    with pa(1) have rb: "rb = Some c" by simp
    from a1 Some have x1: "rangeLoop ?add (rangeAdded e1 A) (t, True) = ((ta, aa), Some c)" by simp
    from a2 rb have x2: "rangeLoop ?add (rangeAdded e2 A) (t, True) = ((ua, ba), Some c)" by simp
    note f1 = pass_returns_facts [OF fra sha x1] and f2 = pass_returns_facts [OF fra sha x2]
    from r1 Some have t1: "t1 = ta" "c1 = c" by simp_all
    from r2 rb have t2: "t2 = ua" "c2 = c" by simp_all
    from f1(3,4) have l1: "\<exists>ln\<in>set (emitted t ta). lookupFailed ln"
      using last_in_set by blast
    from f2(3,4) have l2: "\<exists>ln\<in>set (emitted t ua). lookupFailed ln"
      using last_in_set by blast
    from f1(2) have "\<exists>path. snd (depotAnswer cfg e1 path) \<noteq> None" by auto
    with t1 t2 l1 l2 show ?thesis by auto
  next
    case None
    with pa(1) have rb: "rb = None" by simp
    from pa(2,3,4) None have eqa: "set (emitted t ta) = set (emitted t ua)"
      "set (lookedUp t ta) = set (lookedUp t ua)" "aa = ba"
      by simp_all
    from a1 None have x1: "rangeLoop ?add (rangeAdded e1 A) (t, True) = ((ta, aa), None)" by simp
    from a2 rb have x2: "rangeLoop ?add (rangeAdded e2 A) (t, True) = ((ua, ba), None)" by simp
    note f1 = pass_completes_facts [OF fra sha x1] and f2 = pass_completes_facts [OF fra sha x2]
    from d2 eqa(3) have d2': "rangeLoop ?del (rangeDeleted e2 D) (ua, aa) = ((ud, bd), re)" by simp
    note pd = pass_two_orders [OF frd shd sd d1 d2']
    show ?thesis
    proof (cases rd)
      case (Some c)
      with pd(1) have re: "re = Some c" by simp
      from d1 Some have y1: "rangeLoop ?del (rangeDeleted e1 D) (ta, aa) = ((td, ad), Some c)"
        by simp
      from d2' re have y2: "rangeLoop ?del (rangeDeleted e2 D) (ua, aa) = ((ud, bd), Some c)"
        by simp
      note g1 = pass_returns_facts [OF frd shd y1] and g2 = pass_returns_facts [OF frd shd y2]
      from r1 None Some have t1: "t1 = td" "c1 = c" by simp_all
      from r2 rb re have t2: "t2 = ud" "c2 = c" by simp_all
      from g1(3,4) have "\<exists>ln\<in>set (emitted ta td). lookupFailed ln"
        using last_in_set by blast
      with grows_trans(2) [OF f1(4) g1(6)] have l1: "\<exists>ln\<in>set (emitted t td). lookupFailed ln"
        by auto
      from g2(3,4) have "\<exists>ln\<in>set (emitted ua ud). lookupFailed ln"
        using last_in_set by blast
      with grows_trans(2) [OF f2(4) g2(6)] have l2: "\<exists>ln\<in>set (emitted t ud). lookupFailed ln"
        by auto
      from g1(2) have "\<exists>path. snd (depotAnswer cfg e1 path) \<noteq> None" by auto
      with t1 t2 l1 l2 show ?thesis by auto
    next
      case None
      with pd(1) have re: "re = None" by simp
      from pd(2,3,4) None have eqd: "set (emitted ta td) = set (emitted ua ud)"
        "set (lookedUp ta td) = set (lookedUp ua ud)" "ad = bd"
        by simp_all
      from d1 None have y1: "rangeLoop ?del (rangeDeleted e1 D) (ta, aa) = ((td, ad), None)"
        by simp
      from d2' re have y2: "rangeLoop ?del (rangeDeleted e2 D) (ua, aa) = ((ud, bd), None)"
        by simp
      note g1 = pass_completes_facts [OF frd shd y1] and g2 = pass_completes_facts [OF frd shd y2]
      note h1 = grows_trans [OF f1(4) g1(4)] and h2 = grows_trans [OF f2(4) g2(4)]
      from h1(2,3) h2(2,3) eqa eqd have eq: "set (emitted t td) = set (emitted t ud)"
        "set (lookedUp t td) = set (lookedUp t ud)"
        by simp_all
      from h1(2) f1(2) g1(2) have nf: "\<forall>ln\<in>set (emitted t td). \<not> lookupFailed ln"
        using violation_not_lookupFailed by auto
      show ?thesis
      proof (cases ad)
        case True
        with r1 \<open>ra = None\<close> None have t1: "t1 = emit Success td" "c1 = p4ExitSuccess" by simp_all
        from True eqd(3) r2 rb re have t2: "t2 = emit Success ud" "c2 = p4ExitSuccess" by simp_all
        note k1 = grows_trans [OF h1(1) grows_emit(1), of Success]
        note k2 = grows_trans [OF h2(1) grows_emit(1), of Success]
        from k1(2,3) k2(2,3) eq have "set (emitted t t1) = set (emitted t t2)"
          "set (lookedUp t t1) = set (lookedUp t t2)"
          by (simp_all add: t1 t2 grows_emit)
        moreover from k1(2) nf have "\<forall>ln\<in>set (emitted t t1). \<not> lookupFailed ln"
          by (simp add: t1 grows_emit)
        moreover from k2(2) nf eq(1) have "\<forall>ln\<in>set (emitted t t2). \<not> lookupFailed ln"
          by (simp add: t2 grows_emit)
        ultimately show ?thesis using t1(2) t2(2) by simp
      next
        case False
        with r1 \<open>ra = None\<close> None have t1: "t1 = td" "c1 = p4ExitProblems" by simp_all
        from False eqd(3) r2 rb re have t2: "t2 = ud" "c2 = p4ExitProblems" by simp_all
        from eq nf t1 t2 show ?thesis by simp
      qed
    qed
  qed
qed

text \<open>
  \<^bold>\<open>C9\<close> (the verdict depends on the report, the configuration and the depot only).
  \<^verbatim>\<open>app\<close> is a function of the configuration, the arguments and the environment; all
  that two runs on the same depot can differ in is the order in which the two loops
  visit their sets. For any two such orders the exit code is the same and a look-up
  failure ends both runs or neither; when none does, the two runs print the same set of
  lines (the same violations, the same verdict) and look the same set of paths up. No
  look-up fails when the depot answers every question.
\<close>

theorem verdict_independent_of_visiting_order:
  assumes "p4 e2 = p4 e1"
    and "rangeOk (rangeAdded e1)" and "rangeOk (rangeDeleted e1)"
    and "rangeOk (rangeAdded e2)" and "rangeOk (rangeDeleted e2)"
  shows "snd (app cfg e1 args) = snd (app cfg e2 args)
       \<and> ((\<exists>ln\<in>set (stdout (fst (app cfg e1 args))). lookupFailed ln)
            \<longleftrightarrow> (\<exists>ln\<in>set (stdout (fst (app cfg e2 args))). lookupFailed ln))
       \<and> ((\<forall>ln\<in>set (stdout (fst (app cfg e1 args))). \<not> lookupFailed ln) \<longrightarrow>
             set (stdout (fst (app cfg e1 args))) = set (stdout (fst (app cfg e2 args)))
             \<and> set (fstats (fst (app cfg e1 args))) = set (fstats (fst (app cfg e2 args))))
       \<and> ((\<forall>path. snd (depotAnswer cfg e1 path) = None) \<longrightarrow>
             (\<forall>ln\<in>set (stdout (fst (app cfg e1 args))). \<not> lookupFailed ln))"
proof (cases "front cfg e1 args")
  case (Inl res)
  obtain t1 c1 where res: "res = (t1, c1)" by (cases res)
  from Inl front_same_depot [OF assms(1) [symmetric], of cfg args]
  have same: "app cfg e2 args = app cfg e1 args" and ap: "app cfg e1 args = (t1, c1)"
    by (simp_all add: app_front res)
  from front_early [of cfg e1 args t1 c1] Inl res
  have "\<forall>ln\<in>set (stdout t1). \<not> lookupFailed ln" by auto
  with same ap show ?thesis by simp
next
  case (Inr b)
  obtain changelist report where b: "b = (changelist, report)" by (cases b)
  from Inr front_same_depot [OF assms(1) [symmetric], of cfg args]
  have f2: "front cfg e2 args = Inr b" by simp
  obtain t1 c1 where v1:
    "validate cfg e1 changelist (headerOf report) (recordsOf report) start = (t1, c1)"
    by (metis surj_pair)
  obtain t2 c2 where v2:
    "validate cfg e2 changelist (headerOf report) (recordsOf report) start = (t2, c2)"
    by (metis surj_pair)
  from Inr b v1 have a1: "app cfg e1 args = (t1, c1)" by (simp add: app_front)
  from f2 b v2 have a2: "app cfg e2 args = (t2, c2)" by (simp add: app_front)
  from grows_start [OF validate_grows [OF v1]]
  have s1: "stdout t1 = Blank # emitted start t1" "fstats t1 = lookedUp start t1" by simp_all
  from grows_start [OF validate_grows [OF v2]]
  have s2: "stdout t2 = Blank # emitted start t2" "fstats t2 = lookedUp start t2" by simp_all
  from validate_two_orders [OF assms v1 v2]
  have "c1 = c2
       \<and> ((\<exists>ln\<in>set (emitted start t1). lookupFailed ln)
            \<longleftrightarrow> (\<exists>ln\<in>set (emitted start t2). lookupFailed ln))
       \<and> ((\<forall>ln\<in>set (emitted start t1). \<not> lookupFailed ln) \<longrightarrow>
             set (emitted start t1) = set (emitted start t2)
             \<and> set (lookedUp start t1) = set (lookedUp start t2))
       \<and> ((\<forall>path. snd (depotAnswer cfg e1 path) = None) \<longrightarrow>
             (\<forall>ln\<in>set (emitted start t1). \<not> lookupFailed ln))" .
  then show ?thesis
    unfolding a1 a2 fst_conv snd_conv s1 s2 by simp
qed

theorem verdict_independent_of_visiting_order_witness:
  "p4 (depot clTwoAssets noSuchFile descending) = p4 (depot clTwoAssets noSuchFile sorted_list_of_set)
   \<and> rangeOk (rangeAdded (depot clTwoAssets noSuchFile sorted_list_of_set))
   \<and> rangeOk (rangeDeleted (depot clTwoAssets noSuchFile sorted_list_of_set))
   \<and> rangeOk (rangeAdded (depot clTwoAssets noSuchFile descending))
   \<and> rangeOk (rangeDeleted (depot clTwoAssets noSuchFile descending))
   \<and> (\<forall>path. snd (depotAnswer cfgUnity (depot clTwoAssets noSuchFile sorted_list_of_set) path)
               = None)
   \<and> app cfgUnity (depot clTwoAssets noSuchFile sorted_list_of_set) [''1'']
       = (\<lparr>stdout = [Blank, MissingMeta ''//d/Assets/a.png'', MissingMeta ''//d/Assets/c.png''],
           fstats = [''//d/Assets/a.png.meta'', ''//d/Assets/c.png.meta'']\<rparr>, p4ExitProblems)
   \<and> app cfgUnity (depot clTwoAssets noSuchFile descending) [''1'']
       = (\<lparr>stdout = [Blank, MissingMeta ''//d/Assets/c.png'', MissingMeta ''//d/Assets/a.png''],
           fstats = [''//d/Assets/c.png.meta'', ''//d/Assets/a.png.meta'']\<rparr>, p4ExitProblems)
   \<and> snd (app cfgUnity (depot clTwoAssets noSuchFile sorted_list_of_set) [''1''])
       = snd (app cfgUnity (depot clTwoAssets noSuchFile descending) [''1''])
   \<and> set (stdout (fst (app cfgUnity (depot clTwoAssets noSuchFile sorted_list_of_set) [''1''])))
       = set (stdout (fst (app cfgUnity (depot clTwoAssets noSuchFile descending) [''1''])))"
proof -
  have h1: "p4 (depot clTwoAssets noSuchFile descending)
              = p4 (depot clTwoAssets noSuchFile sorted_list_of_set)"
    by (simp add: depot_def)
  have h2: "rangeOk (rangeAdded (depot clTwoAssets noSuchFile sorted_list_of_set))"
    and h3: "rangeOk (rangeDeleted (depot clTwoAssets noSuchFile sorted_list_of_set))"
    and h4: "rangeOk (rangeAdded (depot clTwoAssets noSuchFile descending))"
    and h5: "rangeOk (rangeDeleted (depot clTwoAssets noSuchFile descending))"
    by (simp_all add: depot_def rangeOk_sorted rangeOk_descending)
  have r1: "app cfgUnity (depot clTwoAssets noSuchFile sorted_list_of_set) [''1'']
       = (\<lparr>stdout = [Blank, MissingMeta ''//d/Assets/a.png'', MissingMeta ''//d/Assets/c.png''],
           fstats = [''//d/Assets/a.png.meta'', ''//d/Assets/c.png.meta'']\<rparr>, p4ExitProblems)"
    by code_simp
  have r2: "app cfgUnity (depot clTwoAssets noSuchFile descending) [''1'']
       = (\<lparr>stdout = [Blank, MissingMeta ''//d/Assets/c.png'', MissingMeta ''//d/Assets/a.png''],
           fstats = [''//d/Assets/c.png.meta'', ''//d/Assets/a.png.meta'']\<rparr>, p4ExitProblems)"
    by code_simp
  have an: "\<forall>path. snd (depotAnswer cfgUnity (depot clTwoAssets noSuchFile sorted_list_of_set) path)
               = None"
    by (simp add: depotAnswer_def fileExistsInDepot_def depot_def noSuchFile_def Let_def)
  from verdict_independent_of_visiting_order [OF h1 h2 h3 h4 h5, of cfgUnity "[''1'']"] an
  have "snd (app cfgUnity (depot clTwoAssets noSuchFile sorted_list_of_set) [''1''])
       = snd (app cfgUnity (depot clTwoAssets noSuchFile descending) [''1''])
   \<and> set (stdout (fst (app cfgUnity (depot clTwoAssets noSuchFile sorted_list_of_set) [''1''])))
       = set (stdout (fst (app cfgUnity (depot clTwoAssets noSuchFile descending) [''1''])))"
    by blast
  with h1 h2 h3 h4 h5 an r1 r2 show ?thesis by blast
qed

subsection \<open>The scenarios of the specification, run\<close>

text \<open>
  An asset added with its metadata; an asset added alone, its metadata not in the
  depot; an asset deleted while its metadata is still in the depot; a file below a
  directory that ends in a tilde; and an asset and its metadata that differ in case.
\<close>

lemma scenario_paired_add:
  "app cfgUnity (depot clPaired noSuchFile sorted_list_of_set) [''1'']
     = (\<lparr>stdout = [Blank, Success], fstats = []\<rparr>, p4ExitSuccess)"
  by code_simp

lemma scenario_missing_meta:
  "app cfgUnity (depot clAsset noSuchFile sorted_list_of_set) [''1'']
     = (\<lparr>stdout = [Blank, MissingMeta ''//d/Assets/a.png''],
         fstats = [''//d/Assets/a.png.meta'']\<rparr>, p4ExitProblems)"
  by code_simp

lemma scenario_orphaned_meta:
  "app cfgUnity (depot clDelete headEdit sorted_list_of_set) [''1'']
     = (\<lparr>stdout = [Blank, OrphanedMeta ''//d/Assets/b.png''],
         fstats = [''//d/Assets/b.png.meta'']\<rparr>, p4ExitProblems)"
  by code_simp

lemma scenario_tilde_directory:
  "app cfgUnity (depot clTilde noSuchFile sorted_list_of_set) [''1'']
     = (\<lparr>stdout = [Blank, Success], fstats = []\<rparr>, p4ExitSuccess)"
  by code_simp

lemma scenario_case_insensitive:
  "app cfgUnity (depot clCase noSuchFile sorted_list_of_set) [''1'']
     = (\<lparr>stdout = [Blank, Success], fstats = []\<rparr>, p4ExitSuccess)"
  by code_simp

text \<open>
  A look-up that fails ends the run at once, so what was printed before it depends on
  the order of the visit; the exit code does not.
\<close>

lemma scenario_failure_ascending:
  "app cfgUnity (depot clTwoAssets (failsOn ''//d/Assets/a.png.meta'') sorted_list_of_set) [''1'']
     = (\<lparr>stdout = [Blank, LaunchFailed ''exit status 1'' ''error: connect failed'',
                   FstatFailed ''//d/Assets/a.png.meta'' ''exit status 1''],
         fstats = [''//d/Assets/a.png.meta'']\<rparr>, p4ExitErrorException)"
  by code_simp

lemma scenario_failure_descending:
  "app cfgUnity (depot clTwoAssets (failsOn ''//d/Assets/a.png.meta'') descending) [''1'']
     = (\<lparr>stdout = [Blank, MissingMeta ''//d/Assets/c.png'',
                   LaunchFailed ''exit status 1'' ''error: connect failed'',
                   FstatFailed ''//d/Assets/a.png.meta'' ''exit status 1''],
         fstats = [''//d/Assets/c.png.meta'', ''//d/Assets/a.png.meta'']\<rparr>,
        p4ExitErrorException)"
  by code_simp

text \<open>
  Text outside ASCII. \<^verbatim>\<open>strings.ToLower\<close> lowers \<^verbatim>\<open>U+00C9\<close> to \<^verbatim>\<open>U+00E9\<close>, so
  the asset \<^verbatim>\<open>U+00C9.PNG\<close> and the metadata file \<^verbatim>\<open>U+00E9.png.meta\<close> are a pairing.
  \<^verbatim>\<open>strings.TrimSpace\<close> cuts the no-break space: a record that ends in one parses, and
  a header line that holds nothing else is no line of the header, so that a key phrase
  in the line after it is in the first line of the header, where the bypass does not
  look, and a report with no other header line has no header.
\<close>

lemma scenario_lower_case_of_accent:
  "strings_ToLower (''//d/Assets/'' @ [CHR 0xC3, CHR 0x89] @ ''.PNG.meta'')
     = ''//d/assets/'' @ [CHR 0xC3, CHR 0xA9] @ ''.png.meta''"
  by code_simp

lemma scenario_accented_pairing:
  "app cfgUnity (depot clAccent noSuchFile sorted_list_of_set) [''1'']
     = (\<lparr>stdout = [Blank, Success], fstats = []\<rparr>, p4ExitSuccess)"
  by code_simp

lemma scenario_record_ends_in_no_break_space:
  "recordsOf (reportOf clRecordNbsp) = [''//d/Assets/a.png#1 add'']
   \<and> app cfgUnity (depot clRecordNbsp noSuchFile sorted_list_of_set) [''1'']
       = (\<lparr>stdout = [Blank, MissingMeta ''//d/Assets/a.png''],
           fstats = [''//d/Assets/a.png.meta'']\<rparr>, p4ExitProblems)"
  by code_simp

lemma scenario_header_line_of_no_break_space:
  "headerOf (reportOf clHeaderNbsp) = [''hotfix p4unity-bypass'']
   \<and> \<not> bypassed cfgUnity (reportOf clHeaderNbsp)
   \<and> app cfgUnity (depot clHeaderNbsp noSuchFile sorted_list_of_set) [''1'']
       = (\<lparr>stdout = [Blank, MissingMeta ''//d/Assets/a.png''],
           fstats = [''//d/Assets/a.png.meta'']\<rparr>, p4ExitProblems)"
  by code_simp

lemma scenario_empty_phrase_one_header_line:
  "headerOf (reportOf clSecondNbsp) = [''Change 1 by u@c'']
   \<and> app (cfgUnity\<lparr>BypassKeyphrase := []\<rparr>) (depot clSecondNbsp noSuchFile sorted_list_of_set)
        [''1'']
       = (\<lparr>stdout = [Blank, MissingMeta ''//d/Assets/a.png''],
           fstats = [''//d/Assets/a.png.meta'']\<rparr>, p4ExitProblems)"
  by code_simp

lemma scenario_no_header_but_no_break_space:
  "headerOf (reportOf clOnlyNbsp) = []
   \<and> app (cfgUnity\<lparr>PathWhitelist := []\<rparr>) (depot clOnlyNbsp noSuchFile sorted_list_of_set)
        [''1'']
       = (\<lparr>stdout = [Blank, DescribeEmpty 1], fstats = []\<rparr>, p4ExitErrorEmpty)"
  by code_simp

end
